theory Spec2Isabelle
  imports Main
begin

section \<open>JavaScript values and errors\<close>

text \<open>
  The grid service keeps whatever value its constructor receives, and
  \<open>SolutionService.fromString\<close> hands it the result of \<open>JSON.parse\<close>, so the
  backing data of a grid is an arbitrary JavaScript value.  Numbers are the
  integers (the grids hold digits), arrays are dense lists, objects are
  association lists in insertion order.
\<close>

datatype jsval =
    JUndefined
  | JNull
  | JBool bool
  | JNum int
  | JStr string
  | JArr "jsval list"
  | JObj "(string \<times> jsval) list"

text \<open>
  Errors are values.  \<open>InvalidSolutionError\<close> is the class of the utilities
  module that \<open>fromString\<close> throws with the offending text and the caught error.
\<close>

datatype error =
    TypeError string
  | SyntaxError
  | InvalidSolutionError string error

text \<open>A position \<open>{ y, x }\<close> (\<open>{ row, col }\<close> in the solution service) is the pair \<open>(y, x)\<close>.\<close>

type_synonym Pos = "nat \<times> nat"

text \<open>The single quote, and the character of a digit below 10.\<close>

definition sq :: char where
  "sq = CHR 0x27"

definition digit_char :: "nat \<Rightarrow> char" where
  "digit_char d = ''0123456789'' ! (d mod 10)"

text \<open>Decimal rendering of a natural number and of an integer.\<close>

function show_nat :: "nat \<Rightarrow> string" where
  "show_nat n =
     (if n < 10 then [digit_char n] else show_nat (n div 10) @ [digit_char (n mod 10)])"
  by pat_completeness auto
termination
  by (relation "measure (\<lambda>n. n)") auto

declare show_nat.simps [simp del]

definition show_int :: "int \<Rightarrow> string" where
  "show_int i = (if i < 0 then CHR ''-'' # show_nat (nat (- i)) else show_nat (nat i))"

text \<open>
  Property read \<open>v[k]\<close> with an index key, as V8 performs it: reading a property
  of \<open>undefined\<close> or \<open>null\<close> throws a \<open>TypeError\<close> whose message names the value
  and the key; an array yields the element or \<open>undefined\<close> past its end; an
  object yields the last value stored under the key; a string yields the
  one-character string; numbers and booleans have no index properties.
\<close>

definition getProp :: "jsval \<Rightarrow> nat \<Rightarrow> error + jsval" where
  "getProp v k =
     (case v of
        JUndefined \<Rightarrow>
          Inl (TypeError (''Cannot read properties of undefined (reading '' @ [sq] @ show_nat k @ [sq] @ '')''))
      | JNull \<Rightarrow>
          Inl (TypeError (''Cannot read properties of null (reading '' @ [sq] @ show_nat k @ [sq] @ '')''))
      | JArr xs \<Rightarrow> Inr (if k < length xs then xs ! k else JUndefined)
      | JObj kvs \<Rightarrow>
          Inr (case map_of (rev kvs) (show_nat k) of Some w \<Rightarrow> w | None \<Rightarrow> JUndefined)
      | JStr s \<Rightarrow> Inr (if k < length s then JStr [s ! k] else JUndefined)
      | _ \<Rightarrow> Inr JUndefined)"

text \<open>
  Strict equality \<open>===\<close>.  On \<open>undefined\<close>, \<open>null\<close>, booleans, integers and
  strings it is equality of values.  Two arrays or objects are equal in
  JavaScript when they are the same object, an identity these values do not
  carry; the model takes them as equal when their contents are.  The cells
  compared in the statements below are numbers, strings, booleans, \<open>null\<close> or
  \<open>undefined\<close>, or the statement holds whatever the comparisons answer.
\<close>

definition strict_equals :: "jsval \<Rightarrow> jsval \<Rightarrow> bool" where
  "strict_equals a b = (a = b)"


section \<open>Position algebra\<close>

text \<open>
  The position service \<open>PosSvc\<close> and the iteration helpers of the utilities
  module are used by the grid and solution services and are not in the
  sources.  Each of the four definitions below is written from the spec.
\<close>

text \<open>
  Modelled from the spec: \<open>PosSvc.getBoxFromPos\<close> is missing; the box of a
  position is \<open>(row div 3) * 3 + col div 3\<close>.
\<close>

definition getBoxFromPos :: "Pos \<Rightarrow> nat" where
  "getBoxFromPos p = (fst p div 3) * 3 + snd p div 3"

text \<open>
  Modelled from the spec: \<open>PosSvc.equalsPos\<close> is missing; two positions are equal
  iff row and column are both equal.
\<close>

definition equalsPos :: "Pos \<Rightarrow> Pos \<Rightarrow> bool" where
  "equalsPos a b = (fst a = fst b \<and> snd a = snd b)"

text \<open>
  Modelled from the spec: \<open>PosSvc.areRelated\<close> is missing; two positions are
  related iff they share the row, the column or the box, with no exclusion
  of the position itself.
\<close>

definition areRelated :: "Pos \<Rightarrow> Pos \<Rightarrow> bool" where
  "areRelated a b =
     (fst a = fst b \<or> snd a = snd b \<or> getBoxFromPos a = getBoxFromPos b)"

text \<open>
  Modelled from the spec: \<open>iterateMatrix\<close> is missing; \<open>iterateMatrix(n)\<close> yields
  the positions of the \<open>n\<close> by \<open>n\<close> square in row-major order.
\<close>

definition iterateMatrix :: "nat \<Rightarrow> Pos list" where
  "iterateMatrix n = concat (map (\<lambda>r. map (\<lambda>c. (r, c)) [0..<n]) [0..<n])"


section \<open>The grid service\<close>

text \<open>
  The sources hold one grid class, \<open>GridSvc\<close>.  The solution service imports
  its grid class under the name \<open>GridService\<close>, from a file that is not in
  the sources, and uses it through the interface \<open>IGrid\<close> declared beside the
  solution service.  The members the solution service calls that \<open>GridSvc\<close>
  has under the same name (the constructor, \<open>compareRelated\<close>, \<open>copy\<close>) are
  taken from \<open>GridSvc\<close>.  Two members are not there: the accessor \<open>value\<close>,
  which \<open>GridSvc\<close> does not have, and \<open>joinGrid\<close> with the separators
  \<open>{ col, row }\<close>, where \<open>GridSvc.joinGrid\<close> takes \<open>{ x, y }\<close> and its parameter
  type excludes the object the solution service passes.  These two are
  modelled from the spec and the interface.  The record field is the private
  field \<open>#data\<close>.
\<close>

record GridSvc =
  data :: jsval

text \<open>The constructor stores its argument; it has no check and no \<open>throw\<close>.\<close>

definition GridSvc_new :: "jsval \<Rightarrow> error + GridSvc" where
  "GridSvc_new d = Inr \<lparr> data = d \<rparr>"

text \<open>\<open>getCell({ y, x })\<close> is \<open>this.#data[y][x]\<close>.\<close>

definition getCell :: "GridSvc \<Rightarrow> Pos \<Rightarrow> error + jsval" where
  "getCell g p =
     (case getProp (data g) (fst p) of
        Inl e \<Rightarrow> Inl e
      | Inr r \<Rightarrow> getProp r (snd p))"

text \<open>
  The loop of \<open>compareRelated\<close> over the remaining positions.  The conjunction
  \<open>areRelated(cellPos, currPos) && !fn(getCell(cellPos), getCell(currPos), currPos)\<close>
  reads the two cells only at a related position, the cell of \<open>cellPos\<close> first.
\<close>

fun compareRelated_loop ::
  "GridSvc \<Rightarrow> Pos \<Rightarrow> (jsval \<Rightarrow> jsval \<Rightarrow> Pos \<Rightarrow> bool) \<Rightarrow> Pos list \<Rightarrow> error + bool" where
  "compareRelated_loop g cellPos fn [] = Inr True"
| "compareRelated_loop g cellPos fn (currPos # rest) =
     (if areRelated cellPos currPos then
        (case getCell g cellPos of
           Inl e \<Rightarrow> Inl e
         | Inr a \<Rightarrow>
             (case getCell g currPos of
                Inl e \<Rightarrow> Inl e
              | Inr b \<Rightarrow>
                  if \<not> fn a b currPos then Inr False
                  else compareRelated_loop g cellPos fn rest))
      else compareRelated_loop g cellPos fn rest)"

definition compareRelated ::
  "GridSvc \<Rightarrow> Pos \<Rightarrow> (jsval \<Rightarrow> jsval \<Rightarrow> Pos \<Rightarrow> bool) \<Rightarrow> error + bool" where
  "compareRelated g cellPos fn = compareRelated_loop g cellPos fn (iterateMatrix 9)"


text \<open>
  Calling an array method on a value that has none: reading the method of
  \<open>undefined\<close> or \<open>null\<close> throws as any property read does; on every other value
  that is not an array the call throws \<open>recv.meth is not a function\<close>, where
  \<open>recv\<close> is the text of the receiver expression.
\<close>

definition not_a_function :: "string \<Rightarrow> string \<Rightarrow> jsval \<Rightarrow> error" where
  "not_a_function recv meth v =
     (case v of
        JUndefined \<Rightarrow>
          TypeError (''Cannot read properties of undefined (reading '' @ [sq] @ meth @ [sq] @ '')'')
      | JNull \<Rightarrow>
          TypeError (''Cannot read properties of null (reading '' @ [sq] @ meth @ [sq] @ '')'')
      | _ \<Rightarrow> TypeError (recv @ ''.'' @ meth @ '' is not a function''))"

text \<open>
  \<open>Array.prototype.every\<close>, \<open>some\<close> and \<open>map\<close> with a callback that receives the
  element and its index and may throw: the elements are visited in index
  order, \<open>every\<close> stops at the first false, \<open>some\<close> at the first true.
\<close>

fun every_loop :: "(jsval \<Rightarrow> nat \<Rightarrow> error + bool) \<Rightarrow> nat \<Rightarrow> jsval list \<Rightarrow> error + bool" where
  "every_loop f i [] = Inr True"
| "every_loop f i (v # vs) =
     (case f v i of
        Inl e \<Rightarrow> Inl e
      | Inr b \<Rightarrow> if b then every_loop f (Suc i) vs else Inr False)"

fun some_loop :: "(jsval \<Rightarrow> nat \<Rightarrow> error + bool) \<Rightarrow> nat \<Rightarrow> jsval list \<Rightarrow> error + bool" where
  "some_loop f i [] = Inr False"
| "some_loop f i (v # vs) =
     (case f v i of
        Inl e \<Rightarrow> Inl e
      | Inr b \<Rightarrow> if b then Inr True else some_loop f (Suc i) vs)"

fun map_loop :: "(jsval \<Rightarrow> nat \<Rightarrow> error + jsval) \<Rightarrow> nat \<Rightarrow> jsval list \<Rightarrow> error + jsval list" where
  "map_loop f i [] = Inr []"
| "map_loop f i (v # vs) =
     (case f v i of
        Inl e \<Rightarrow> Inl e
      | Inr w \<Rightarrow>
          (case map_loop f (Suc i) vs of
             Inl e \<Rightarrow> Inl e
           | Inr ws \<Rightarrow> Inr (w # ws)))"

definition arr_every :: "string \<Rightarrow> jsval \<Rightarrow> (jsval \<Rightarrow> nat \<Rightarrow> error + bool) \<Rightarrow> error + bool" where
  "arr_every recv v f =
     (case v of JArr xs \<Rightarrow> every_loop f 0 xs | _ \<Rightarrow> Inl (not_a_function recv ''every'' v))"

definition arr_some :: "string \<Rightarrow> jsval \<Rightarrow> (jsval \<Rightarrow> nat \<Rightarrow> error + bool) \<Rightarrow> error + bool" where
  "arr_some recv v f =
     (case v of JArr xs \<Rightarrow> some_loop f 0 xs | _ \<Rightarrow> Inl (not_a_function recv ''some'' v))"

definition arr_map :: "string \<Rightarrow> jsval \<Rightarrow> (jsval \<Rightarrow> nat \<Rightarrow> error + jsval) \<Rightarrow> error + jsval" where
  "arr_map recv v f =
     (case v of
        JArr xs \<Rightarrow> (case map_loop f 0 xs of Inl e \<Rightarrow> Inl e | Inr ws \<Rightarrow> Inr (JArr ws))
      | _ \<Rightarrow> Inl (not_a_function recv ''map'' v))"

text \<open>
  \<open>Array.prototype.join\<close>: \<open>undefined\<close> and \<open>null\<close> elements give the empty
  string, every other element its string conversion (an array converts to
  its elements joined with commas).
\<close>

fun join_strs :: "string \<Rightarrow> string list \<Rightarrow> string" where
  "join_strs sep [] = []"
| "join_strs sep [s] = s"
| "join_strs sep (s # t # ss) = s @ sep @ join_strs sep (t # ss)"



text \<open>\<open>#mapData(mapFn)\<close>: \<open>this.#data.map((row, y) => row.map((cell, x) => mapFn(cell, { y, x })))\<close>.\<close>

definition mapData :: "GridSvc \<Rightarrow> (jsval \<Rightarrow> Pos \<Rightarrow> error + jsval) \<Rightarrow> error + jsval" where
  "mapData g mapFn =
     arr_map ''this.#data'' (data g)
       (\<lambda>row r. arr_map ''row'' row (\<lambda>cell c. mapFn cell (r, c)))"

text \<open>The accessor \<open>data\<close> and \<open>copy()\<close>, which is \<open>new GridSvc(this.data)\<close>.\<close>

definition get_data :: "GridSvc \<Rightarrow> error + jsval" where
  "get_data g = mapData g (\<lambda>cell _. Inr cell)"

definition copy :: "GridSvc \<Rightarrow> error + GridSvc" where
  "copy g = (case get_data g of Inl e \<Rightarrow> Inl e | Inr d \<Rightarrow> GridSvc_new d)"

text \<open>
  \<open>editCell(cellPos, fn)\<close> maps the data with
  \<open>(cell, pos) => equalsPos(cellPos, pos) ? fn(this.getCell(cellPos), cellPos) : cell\<close>.
\<close>

definition editCell :: "GridSvc \<Rightarrow> Pos \<Rightarrow> (jsval \<Rightarrow> Pos \<Rightarrow> jsval) \<Rightarrow> error + GridSvc" where
  "editCell g cellPos fn =
     (case mapData g (\<lambda>cell pos.
              if equalsPos cellPos pos
              then (case getCell g cellPos of Inl e \<Rightarrow> Inl e | Inr v \<Rightarrow> Inr (fn v cellPos))
              else Inr cell) of
        Inl e \<Rightarrow> Inl e
      | Inr newGrid \<Rightarrow> GridSvc_new newGrid)"

text \<open>\<open>everyGrid(fn)\<close> and \<open>someGrid(fn)\<close>.\<close>

definition everyGrid :: "GridSvc \<Rightarrow> (jsval \<Rightarrow> Pos \<Rightarrow> bool) \<Rightarrow> error + bool" where
  "everyGrid g fn =
     arr_every ''this.#data'' (data g)
       (\<lambda>row r. arr_every ''row'' row (\<lambda>cell c. Inr (fn cell (r, c))))"

definition someGrid :: "GridSvc \<Rightarrow> (jsval \<Rightarrow> Pos \<Rightarrow> bool) \<Rightarrow> error + bool" where
  "someGrid g fn =
     arr_some ''this.#data'' (data g)
       (\<lambda>row r. arr_some ''row'' row (\<lambda>cell c. Inr (fn cell (r, c))))"

text \<open>
  Modelled from the spec: the accessor \<open>value\<close> of the grid class that the
  solution service uses is missing (\<open>GridSvc\<close> has no member of that name).  The
  interface declares it as the two-dimensional array that represents the
  grid, and \<open>toJSON\<close> returns it as the array form of the solution: the array
  of the rows of cells, built as the accessor \<open>data\<close> of \<open>GridSvc\<close> builds it.
\<close>

definition get_value :: "GridSvc \<Rightarrow> error + jsval" where
  "get_value g = mapData g (\<lambda>cell _. Inr cell)"


text \<open>A grid over a two-dimensional array of arbitrary cell values.\<close>

definition matrix_grid :: "jsval list list \<Rightarrow> GridSvc" where
  "matrix_grid rows = \<lparr> data = JArr (map JArr rows) \<rparr>"

section \<open>JSON text\<close>

text \<open>
  \<open>JSON.parse\<close>, as a recursive-descent parser of the JSON grammar: white
  space, arrays, objects with string keys, strings, the literals \<open>true\<close>,
  \<open>false\<close> and \<open>null\<close>, and integer number literals (an optional minus sign,
  then \<open>0\<close> or digits without a leading zero).  Two parts of the grammar are
  outside the model and are reported as syntax errors: a fraction or
  exponent part of a number, and escape sequences in strings.  A parse
  function returns the value with the rest of the text, or \<open>None\<close> at a syntax
  error.
\<close>

definition is_ws :: "char \<Rightarrow> bool" where
  "is_ws c = (c = CHR '' '' \<or> c = CHR 0x09 \<or> c = CHR 0x0A \<or> c = CHR 0x0D)"

definition skip_ws :: "string \<Rightarrow> string" where
  "skip_ws cs = dropWhile is_ws cs"

definition is_digit :: "char \<Rightarrow> bool" where
  "is_digit c = (c \<in> set ''0123456789'')"

definition digit_val :: "char \<Rightarrow> nat" where
  "digit_val c = of_char c - 48"

definition nat_of_digits :: "string \<Rightarrow> nat" where
  "nat_of_digits ds = foldl (\<lambda>acc c. 10 * acc + digit_val c) 0 ds"

definition parse_number :: "string \<Rightarrow> (jsval \<times> string) option" where
  "parse_number cs =
     (let neg = (take 1 cs = ''-'');
          cs1 = (if neg then drop 1 cs else cs);
          ds = (if take 1 cs1 = ''0'' then ''0'' else takeWhile is_digit cs1);
          rest = drop (length ds) cs1
      in if ds = [] then None
         else if take 1 rest = ''.'' \<or> take 1 rest = ''e'' \<or> take 1 rest = ''E'' then None
         else Some (JNum ((if neg then - 1 else 1) * int (nat_of_digits ds)), rest))"

definition parse_string :: "string \<Rightarrow> (string \<times> string) option" where
  "parse_string cs =
     (let body = takeWhile (\<lambda>c. c \<noteq> CHR 0x22) cs;
          rest = dropWhile (\<lambda>c. c \<noteq> CHR 0x22) cs
      in if rest = [] then None
         else if list_ex (\<lambda>c. c = CHR 0x5C \<or> of_char c < (32::nat)) body then None
         else Some (body, tl rest))"

text \<open>
  \<open>parse_elems\<close> reads the elements of an array after \<open>[\<close> or a comma,
  \<open>parse_members\<close> the members of an object.  The tests on the lengths say that
  input was consumed before the function goes on; they carry the termination
  proof and never fail (\<open>parse_elems_unguarded\<close>, \<open>parse_members_unguarded\<close>).
\<close>

function parse_value :: "string \<Rightarrow> (jsval \<times> string) option"
  and parse_elems :: "string \<Rightarrow> jsval list \<Rightarrow> (jsval list \<times> string) option"
  and parse_members ::
    "string \<Rightarrow> (string \<times> jsval) list \<Rightarrow> ((string \<times> jsval) list \<times> string) option"
where
  "parse_value cs =
     (case skip_ws cs of
        [] \<Rightarrow> None
      | c # r \<Rightarrow>
          if c = CHR ''['' then
            (case skip_ws r of
               [] \<Rightarrow> None
             | d # r' \<Rightarrow>
                 if d = CHR '']'' then Some (JArr [], r')
                 else (case parse_elems r [] of
                         None \<Rightarrow> None
                       | Some (vs, rest) \<Rightarrow> Some (JArr vs, rest)))
          else if c = CHR ''{'' then
            (case skip_ws r of
               [] \<Rightarrow> None
             | d # r' \<Rightarrow>
                 if d = CHR ''}'' then Some (JObj [], r')
                 else (case parse_members r [] of
                         None \<Rightarrow> None
                       | Some (kvs, rest) \<Rightarrow> Some (JObj kvs, rest)))
          else if c = CHR 0x22 then
            (case parse_string r of
               None \<Rightarrow> None
             | Some (s, rest) \<Rightarrow> Some (JStr s, rest))
          else if take 4 (c # r) = ''true'' then Some (JBool True, drop 4 (c # r))
          else if take 5 (c # r) = ''false'' then Some (JBool False, drop 5 (c # r))
          else if take 4 (c # r) = ''null'' then Some (JNull, drop 4 (c # r))
          else parse_number (c # r))"
| "parse_elems cs acc =
     (case parse_value cs of
        None \<Rightarrow> None
      | Some (v, rest) \<Rightarrow>
          (case skip_ws rest of
             [] \<Rightarrow> None
           | d # r \<Rightarrow>
               if d = CHR '','' then
                 (if length r < length cs then parse_elems r (acc @ [v]) else None)
               else if d = CHR '']'' then Some (acc @ [v], r)
               else None))"
| "parse_members cs acc =
     (case skip_ws cs of
        [] \<Rightarrow> None
      | q # r \<Rightarrow>
          if q = CHR 0x22 then
            (case parse_string r of
               None \<Rightarrow> None
             | Some (k, r1) \<Rightarrow>
                 (case skip_ws r1 of
                    [] \<Rightarrow> None
                  | col # r2 \<Rightarrow>
                      if col = CHR '':'' \<and> length r2 < length cs then
                        (case parse_value r2 of
                           None \<Rightarrow> None
                         | Some (v, rest) \<Rightarrow>
                             (case skip_ws rest of
                                [] \<Rightarrow> None
                              | d # r3 \<Rightarrow>
                                  if d = CHR '','' then
                                    (if length r3 < length cs
                                     then parse_members r3 (acc @ [(k, v)]) else None)
                                  else if d = CHR ''}'' then Some (acc @ [(k, v)], r3)
                                  else None))
                      else None))
          else None)"
  by pat_completeness auto
termination
proof (relation "measure (\<lambda>a. case a of
          Inl cs \<Rightarrow> 2 * length cs
        | Inr (Inl (cs, acc)) \<Rightarrow> 2 * length cs + 1
        | Inr (Inr (cs, acc)) \<Rightarrow> 2 * length cs + 1)")
  show "wf (measure (\<lambda>a. case a of
          Inl cs \<Rightarrow> 2 * length cs
        | Inr (Inl (cs, acc)) \<Rightarrow> 2 * length cs + 1
        | Inr (Inr (cs, acc)) \<Rightarrow> 2 * length cs + 1))" by simp
next
  fix cs :: string and c r d r'
  assume "skip_ws cs = c # r"
  then have "length (c # r) \<le> length cs"
    unfolding skip_ws_def by (metis length_dropWhile_le)
  then show "(Inr (Inl (r, [])), Inl cs) \<in> measure (\<lambda>a. case a of
          Inl cs \<Rightarrow> 2 * length cs
        | Inr (Inl (cs, acc)) \<Rightarrow> 2 * length cs + 1
        | Inr (Inr (cs, acc)) \<Rightarrow> 2 * length cs + 1)" by simp
next
  fix cs :: string and c r d r'
  assume "skip_ws cs = c # r"
  then have "length (c # r) \<le> length cs"
    unfolding skip_ws_def by (metis length_dropWhile_le)
  then show "(Inr (Inr (r, [])), Inl cs) \<in> measure (\<lambda>a. case a of
          Inl cs \<Rightarrow> 2 * length cs
        | Inr (Inl (cs, acc)) \<Rightarrow> 2 * length cs + 1
        | Inr (Inr (cs, acc)) \<Rightarrow> 2 * length cs + 1)" by simp
qed simp_all

declare parse_value.simps [simp del] parse_elems.simps [simp del] parse_members.simps [simp del]

text \<open>\<open>JSON.parse(text)\<close>: one value, then nothing but white space.\<close>

definition JSON_parse :: "string \<Rightarrow> error + jsval" where
  "JSON_parse text =
     (case parse_value text of
        None \<Rightarrow> Inl SyntaxError
      | Some (v, rest) \<Rightarrow> if skip_ws rest = [] then Inr v else Inl SyntaxError)"

text \<open>
  \<open>JSON.stringify\<close> on an array of arrays of integers (the \<open>toJSON\<close> form of
  a solution): no white space, elements separated by commas.
\<close>

definition json_row :: "int list \<Rightarrow> string" where
  "json_row r = ''['' @ join_strs '','' (map show_int r) @ '']''"

definition json_matrix :: "int list list \<Rightarrow> string" where
  "json_matrix a = ''['' @ join_strs '','' (map json_row a) @ '']''"

text \<open>
  The JSON text that \<open>JSON.stringify\<close> writes for a value inside an array, on
  the values made of arrays, integers, booleans, \<open>null\<close> and \<open>undefined\<close>
  (written \<open>null\<close> there).  Strings and objects, whose text needs escapes and
  the order of the keys, are outside this fragment: the result is \<open>None\<close>.
\<close>

fun json_text :: "jsval \<Rightarrow> string option" where
  "json_text JUndefined = Some ''null''"
| "json_text JNull = Some ''null''"
| "json_text (JBool b) = Some (if b then ''true'' else ''false'')"
| "json_text (JNum n) = Some (show_int n)"
| "json_text (JArr xs) =
     (case those (map json_text xs) of
        None \<Rightarrow> None
      | Some ts \<Rightarrow> Some (''['' @ join_strs '','' ts @ '']''))"
| "json_text (JStr s) = None"
| "json_text (JObj kvs) = None"

text \<open>
  \<open>JSON.stringify(v)\<close>: \<open>undefined\<close> has no JSON text (the call returns
  \<open>undefined\<close>, the result \<open>None\<close>); every other value has the text above.
\<close>

definition JSON_stringify :: "jsval \<Rightarrow> string option" where
  "JSON_stringify v = (case v of JUndefined \<Rightarrow> None | _ \<Rightarrow> json_text v)"


section \<open>The solution service\<close>

text \<open>
  \<open>notArrayErrorMsgRgx().test(msg)\<close> for the pattern
  \<open>/^Cannot read properties of undefined \(reading '[0-8]'\)/\<close>: the message
  starts with the fixed text, one of the characters 0 to 8 in quotes, and a
  closing parenthesis.
\<close>

definition notArrayErrorMsgRgx_test :: "string \<Rightarrow> bool" where
  "notArrayErrorMsgRgx_test msg =
     (let pre = ''Cannot read properties of undefined (reading '' @ [sq] in
      take (length pre) msg = pre \<and>
      (case drop (length pre) msg of
         c # q # r # _ \<Rightarrow> c \<in> set ''012345678'' \<and> q = sq \<and> r = CHR '')''
       | _ \<Rightarrow> False))"

text \<open>The body of the \<open>try\<close> block of \<open>check\<close>: the loop over the positions.\<close>

fun check_loop :: "GridSvc \<Rightarrow> Pos list \<Rightarrow> error + bool" where
  "check_loop g [] = Inr True"
| "check_loop g (pos # rest) =
     (case compareRelated g pos (\<lambda>comp current _. strict_equals comp current) of
        Inl e \<Rightarrow> Inl e
      | Inr b \<Rightarrow> if b then Inr False else check_loop g rest)"

text \<open>
  \<open>check\<close>: a \<open>TypeError\<close> whose message matches the pattern becomes the
  result \<open>false\<close>, every other error is thrown again.
\<close>

definition check :: "GridSvc \<Rightarrow> error + bool" where
  "check g =
     (case check_loop g (iterateMatrix 9) of
        Inr b \<Rightarrow> Inr b
      | Inl err \<Rightarrow>
          (case err of
             TypeError msg \<Rightarrow> if notArrayErrorMsgRgx_test msg then Inr False else Inl err
           | _ \<Rightarrow> Inl err))"

record SolutionService =
  grid :: GridSvc

text \<open>The accessor \<open>grid\<close> returns \<open>this.#grid.copy()\<close>.\<close>

definition get_grid :: "SolutionService \<Rightarrow> error + GridSvc" where
  "get_grid s = copy (grid s)"

text \<open>
  \<open>toJSON()\<close> returns \<open>this.#grid.value\<close>, the accessor \<open>value\<close> of the grid
  class (\<open>get_value\<close> above).
\<close>

definition toJSON :: "SolutionService \<Rightarrow> error + jsval" where
  "toJSON s = get_value (grid s)"


text \<open>
  \<open>fromString(solutionLike)\<close>: the \<open>try\<close> block parses the text and constructs
  the grid and the solution; whatever it throws is wrapped, with the text, in
  an \<open>InvalidSolutionError\<close>.
\<close>

definition fromString :: "string \<Rightarrow> error + SolutionService" where
  "fromString solutionLike =
     (case JSON_parse solutionLike of
        Inl err \<Rightarrow> Inl (InvalidSolutionError solutionLike err)
      | Inr initSolution \<Rightarrow>
          (case GridSvc_new initSolution of
             Inl err \<Rightarrow> Inl (InvalidSolutionError solutionLike err)
           | Inr g \<Rightarrow> Inr \<lparr> grid = g \<rparr>))"

text \<open>A grid of digits given by its rows, as the array of arrays of numbers.\<close>

definition grid_of :: "int list list \<Rightarrow> GridSvc" where
  "grid_of a = matrix_grid (map (map JNum) a)"

text \<open>
  Modelled from the spec: \<open>createMatrix\<close> of the utilities module is missing;
  \<open>createMatrix(n, mapFn)\<close> builds the \<open>n\<close> by \<open>n\<close> array of arrays that holds
  \<open>mapFn\<close> of each position.
\<close>

definition createMatrix :: "nat \<Rightarrow> (Pos \<Rightarrow> 'a) \<Rightarrow> 'a list list" where
  "createMatrix n mapFn = map (\<lambda>r. map (\<lambda>c. mapFn (r, c)) [0..<n]) [0..<n]"

text \<open>
  Modelled from the spec: \<open>box.row\<close> of the utilities module is missing; the
  safety check scans the row, the column and the box of the cell, so
  \<open>box.row(i, row)\<close> and \<open>box.col(i, col)\<close>, for \<open>i\<close> from 0 to 8, walk the nine
  cells of the box of \<open>(row, col)\<close>.  The model walks them row by row from the
  first row \<open>(row div 3) * 3\<close> of the box; the proofs use only that each cell
  of the box is met (\<open>box_index_row\<close>, \<open>box_index_col\<close>).
\<close>

definition box_row :: "nat \<Rightarrow> nat \<Rightarrow> nat" where
  "box_row i r = (r div 3) * 3 + i div 3"

text \<open>
  Modelled from the spec: \<open>box.col\<close> of the utilities module is missing; the
  column of the \<open>i\<close>-th cell of the box, from its first column \<open>(col div 3) * 3\<close>.
\<close>

definition box_col :: "nat \<Rightarrow> nat \<Rightarrow> nat" where
  "box_col i c = (c div 3) * 3 + i mod 3"

text \<open>
  The generator works on its own \<open>number[][]\<close>, created 9 by 9 and only ever
  updated at a cell; every index it reads or writes is below 9, so the reads
  are list lookups and the writes list updates.

  \<open>#cellIsSafe(value, num, { row, col })\<close>: first the loop over \<open>i\<close> as a
  function of the indices left, then the method, which tests the cell itself
  before the loop.
\<close>

fun cellIsSafe_loop :: "int list list \<Rightarrow> int \<Rightarrow> Pos \<Rightarrow> nat list \<Rightarrow> bool" where
  "cellIsSafe_loop v num p [] = True"
| "cellIsSafe_loop v num p (i # rest) =
     (if v ! fst p ! i = num then False
      else if v ! i ! snd p = num then False
      else if v ! box_row i (fst p) ! box_col i (snd p) = num then False
      else cellIsSafe_loop v num p rest)"

definition cellIsSafe :: "int list list \<Rightarrow> int \<Rightarrow> Pos \<Rightarrow> bool" where
  "cellIsSafe v num p =
     (if v ! fst p ! snd p \<noteq> 0 then False else cellIsSafe_loop v num p [0..<9])"

text \<open>
  \<open>for (const num of numbers) if (cellIsSafe(value, num, pos)) value[row][col] = num\<close>
\<close>

fun place :: "int list list \<Rightarrow> int list \<Rightarrow> Pos \<Rightarrow> int list list" where
  "place v [] p = v"
| "place v (num # rest) p =
     place (if cellIsSafe v num p then v[fst p := (v ! fst p)[snd p := num]] else v) rest p"

text \<open>
  The two nested loops of \<open>#fillSolution\<close>, as one loop on the state
  \<open>(value, i, j)\<close>.  Each pass of the inner loop draws one ordering from
  \<open>randomNumbers()\<close>, a function of the utilities module that is not in the
  sources and returns the digits 1 to 9 in a random order.  The orderings
  drawn are the parameter \<open>draws\<close>, and a run that needs more orderings than
  the list holds has not returned (\<open>None\<close>).  After the two placements,
  \<open>retry()\<close> replaces the matrix and sets \<open>i\<close> to -1, the \<open>break\<close> leaves the
  inner loop and \<open>i++\<close> restarts at 0; otherwise \<open>j++\<close>, and when \<open>j\<close> reaches 9
  the outer loop goes on with \<open>i + 1\<close> and \<open>j = i + 1\<close>, or ends when \<open>i + 1\<close>
  is 9.
\<close>

fun fillSolution_loop ::
  "int list list \<Rightarrow> nat \<Rightarrow> nat \<Rightarrow> int list list \<Rightarrow> int list list option" where
  "fillSolution_loop v i j [] = (if 9 \<le> i then Some v else None)"
| "fillSolution_loop v i j (numbers # draws) =
     (if 9 \<le> i then Some v
      else
        (let v1 = place v numbers (i, j);
             v2 = place v1 (rev numbers) (j, i)
         in if v2 ! i ! j = 0 \<or> v2 ! j ! i = 0
            then fillSolution_loop (createMatrix 9 (\<lambda>_. 0)) 0 0 draws
            else if j + 1 < 9 then fillSolution_loop v2 i (j + 1) draws
            else fillSolution_loop v2 (i + 1) (i + 1) draws))"

text \<open>\<open>#fillSolution()\<close> ends with \<open>new GridService(value)\<close>.\<close>

definition fillSolution :: "int list list \<Rightarrow> (error + GridSvc) option" where
  "fillSolution draws =
     (case fillSolution_loop (createMatrix 9 (\<lambda>_. 0)) 0 0 draws of
        None \<Rightarrow> None
      | Some v \<Rightarrow> Some (GridSvc_new (JArr (map (\<lambda>r. JArr (map JNum r)) v))))"

text \<open>\<open>create()\<close> is \<open>new SolutionService(SolutionService.#fillSolution())\<close>.\<close>

definition create :: "int list list \<Rightarrow> (error + SolutionService) option" where
  "create draws =
     (case fillSolution draws of
        None \<Rightarrow> None
      | Some (Inl e) \<Rightarrow> Some (Inl e)
      | Some (Inr g) \<Rightarrow> Some (Inr \<lparr> grid = g \<rparr>))"

text \<open>A valid solution, and two copies of it with one cell changed.\<close>

definition known_solution :: "int list list" where
  "known_solution =
     [[5,3,4,6,7,8,9,1,2],
      [6,7,2,1,9,5,3,4,8],
      [1,9,8,3,4,2,5,6,7],
      [8,5,9,7,6,1,4,2,3],
      [4,2,6,8,5,3,7,9,1],
      [7,1,3,9,2,4,8,5,6],
      [9,6,1,5,3,7,2,8,4],
      [2,8,7,4,1,9,6,3,5],
      [3,4,5,2,8,6,1,7,9]]"

definition row_duplicate :: "int list list" where
  "row_duplicate = known_solution[0 := (known_solution ! 0)[1 := 5]]"

definition box_duplicate :: "int list list" where
  "box_duplicate = known_solution[1 := (known_solution ! 1)[1 := 5]]"


text \<open>
  A run of the generator: 61 orderings of the digits, as \<open>randomNumbers()\<close>
  could return them, and the matrix the run ends with.  The run restarts
  once.
\<close>

definition sample_draws :: "int list list" where
  "sample_draws =
     [[8,7,5,3,1,2,6,4,9],
      [6,4,8,5,9,7,3,1,2],
      [3,6,1,5,2,7,9,4,8],
      [4,7,2,5,8,9,6,3,1],
      [9,6,2,4,8,3,1,5,7],
      [8,7,1,5,2,3,4,9,6],
      [8,7,1,2,4,5,3,6,9],
      [4,2,9,3,8,7,6,5,1],
      [8,1,3,5,7,6,4,2,9],
      [6,9,7,2,4,1,8,3,5],
      [2,6,8,1,3,5,4,9,7],
      [8,4,5,9,6,3,1,7,2],
      [1,7,6,4,5,2,9,3,8],
      [8,6,1,7,3,5,9,4,2],
      [4,6,1,2,5,8,7,9,3],
      [4,9,5,3,6,1,8,2,7],
      [4,8,3,6,9,1,5,2,7],
      [5,4,1,6,8,2,7,3,9],
      [2,6,7,3,4,1,5,8,9],
      [6,2,7,4,5,3,1,9,8],
      [5,8,2,3,6,9,1,4,7],
      [2,8,5,3,6,7,9,4,1],
      [9,7,3,8,5,1,6,2,4],
      [2,4,7,8,6,5,3,1,9],
      [2,4,1,7,8,3,6,9,5],
      [1,3,9,5,4,8,6,2,7],
      [7,9,3,2,4,1,6,5,8],
      [1,4,5,8,6,9,2,7,3],
      [8,3,6,2,5,7,4,9,1],
      [8,1,3,7,6,4,2,9,5],
      [8,2,9,1,3,6,7,5,4],
      [2,7,9,4,6,3,5,8,1],
      [8,1,5,3,4,9,2,7,6],
      [2,9,4,8,1,6,7,3,5],
      [2,9,6,4,1,3,7,5,8],
      [4,3,9,6,1,5,8,7,2],
      [5,2,1,9,6,3,4,7,8],
      [8,5,1,3,4,9,7,2,6],
      [8,6,2,9,4,1,5,7,3],
      [9,6,3,1,8,2,4,5,7],
      [4,6,9,5,3,8,1,2,7],
      [2,5,4,3,9,8,1,6,7],
      [1,6,9,8,3,4,2,7,5],
      [4,6,9,3,8,5,7,2,1],
      [3,7,8,9,4,1,6,2,5],
      [5,6,3,1,9,2,8,4,7],
      [2,4,8,7,5,1,3,9,6],
      [9,1,2,8,5,7,6,3,4],
      [8,1,7,4,2,3,6,5,9],
      [5,6,1,2,7,3,9,4,8],
      [4,1,2,3,8,6,7,9,5],
      [7,5,3,9,8,6,1,4,2],
      [5,1,3,7,9,8,4,2,6],
      [2,9,3,1,5,6,7,8,4],
      [1,8,3,7,2,5,6,9,4],
      [6,5,3,9,1,7,4,2,8],
      [7,9,1,8,5,3,6,2,4],
      [2,8,4,5,1,7,6,9,3],
      [1,7,5,9,6,8,3,2,4],
      [9,3,2,4,6,8,7,5,1],
      [6,5,9,2,3,1,4,8,7]]"

definition sample_result :: "int list list" where
  "sample_result =
     [[4,5,2,6,8,3,9,7,1],
      [9,1,7,4,2,5,8,6,3],
      [8,6,3,9,1,7,5,2,4],
      [1,3,8,5,4,6,7,9,2],
      [7,9,5,1,3,2,4,8,6],
      [6,2,4,7,9,8,1,3,5],
      [2,4,6,8,5,9,3,1,7],
      [3,8,1,2,7,4,6,5,9],
      [5,7,9,3,6,1,2,4,8]]"


section \<open>Predicates of the statements and proofs\<close>

text \<open>A matrix of 9 rows of 9 cells, the cell of a matrix at a position, a position of the grid.\<close>

definition wf9 :: "'a list list \<Rightarrow> bool" where
  "wf9 v = (length v = 9 \<and> list_all (\<lambda>r. length r = 9) v)"

definition cellv :: "int list list \<Rightarrow> Pos \<Rightarrow> int" where
  "cellv v p = v ! fst p ! snd p"

definition inrange :: "Pos \<Rightarrow> bool" where
  "inrange p = (fst p < 9 \<and> snd p < 9)"

text \<open>
  The invariant of the generator's matrix: 9 by 9, every cell 0 (empty) or a
  digit, and no filled cell equal to a different related cell.
\<close>

definition partial_ok :: "int list list \<Rightarrow> bool" where
  "partial_ok v =
     (wf9 v \<and>
      (\<forall>p. inrange p \<longrightarrow> 0 \<le> cellv v p \<and> cellv v p \<le> 9) \<and>
      (\<forall>p q. inrange p \<longrightarrow> inrange q \<longrightarrow> p \<noteq> q \<longrightarrow> areRelated p q \<longrightarrow>
             cellv v p \<noteq> 0 \<longrightarrow> cellv v p \<noteq> cellv v q))"

text \<open>
  The cells the loop has passed when it is at \<open>(i, j)\<close>: the pairs \<open>(a, b)\<close> and
  \<open>(b, a)\<close> with \<open>a \<le> b\<close> that come before \<open>(i, j)\<close> are filled.
\<close>

definition filled :: "int list list \<Rightarrow> nat \<Rightarrow> nat \<Rightarrow> bool" where
  "filled v i j =
     (\<forall>a b. a \<le> b \<longrightarrow> b < 9 \<longrightarrow> (a < i \<or> (a = i \<and> b < j)) \<longrightarrow>
            cellv v (a, b) \<noteq> 0 \<and> cellv v (b, a) \<noteq> 0)"










section \<open>Theorems\<close>

subsection \<open>Evaluations of the validator, the comparison and the constructor\<close>

text \<open>
  C1.  The validator is to answer false for a valid solution in which one cell
  was changed so that a row, or a box, holds a digit twice.  \<open>check\<close> answers
  true on the valid solution and on both changed grids: \<open>compareRelated\<close> with
  the equality test is true only when every related cell holds the digit of
  the position, which is the one case in which \<open>check\<close> answers false.  (In
  \<open>row_duplicate\<close> the cells (0,0) and (0,1) hold 5, in \<open>box_duplicate\<close> the cells
  (0,0) and (1,1).)
\<close>

theorem check_accepts_duplicates:
  "check (grid_of known_solution) = Inr True \<and>
   row_duplicate ! 0 ! 0 = row_duplicate ! 0 ! 1 \<and> check (grid_of row_duplicate) = Inr True \<and>
   box_duplicate ! 0 ! 0 = box_duplicate ! 1 ! 1 \<and> check (grid_of box_duplicate) = Inr True"
  by code_simp


text \<open>
  C3.  \<open>compareRelated\<close> is to call the comparison only at the related
  positions other than the position itself.  On the known solution, at
  position (0,0), the comparison that is false exactly at (0,0) holds at each
  of the 20 other related positions, and \<open>compareRelated\<close> answers false: the
  loop tests \<open>areRelated\<close> alone, a position is related to itself, and the
  comparison is called with the position itself as candidate.
\<close>

theorem compareRelated_visits_own_position:
  "list_all (\<lambda>p. p \<noteq> (0, 0))
     (filter (\<lambda>p. areRelated (0, 0) p \<and> \<not> equalsPos (0, 0) p) (iterateMatrix 9)) \<and>
   length (filter (\<lambda>p. areRelated (0, 0) p \<and> \<not> equalsPos (0, 0) p) (iterateMatrix 9)) = 20 \<and>
   compareRelated (grid_of known_solution) (0, 0) (\<lambda>comp curr p. p \<noteq> (0, 0)) = Inr False"
  by code_simp

text \<open>
  C6.  Constructing a grid from data that is not 9 rows of 9 columns is to
  raise an error.  The constructor accepts the empty array (and any other
  value) without an error, also on the parsing path, where \<open>fromString\<close> hands
  it the array parsed from the text \<open>[]\<close>; the first cell lookup on the grid
  it returns then fails.
\<close>

theorem constructor_accepts_malformed_data:
  "GridSvc_new (JArr []) = Inr \<lparr> data = JArr [] \<rparr> \<and>
   fromString ''[]'' = Inr \<lparr> grid = \<lparr> data = JArr [] \<rparr> \<rparr> \<and>
   GridSvc_new (JArr [JArr [JNum 1, JNum 2]]) = Inr \<lparr> data = JArr [JArr [JNum 1, JNum 2]] \<rparr> \<and>
   getCell \<lparr> data = JArr [] \<rparr> (0, 0) =
     Inl (TypeError (''Cannot read properties of undefined (reading '' @ [sq] @ ''0'' @ [sq] @ '')''))"
  by code_simp


subsection \<open>Array methods and grid operations on a matrix\<close>

lemma every_loop_Inr:
  "(\<And>j. j < length xs \<Longrightarrow> f (xs ! j) (k + j) = Inr (P j)) \<Longrightarrow>
   every_loop f k xs = Inr (\<forall>j<length xs. P j)"
proof (induction xs arbitrary: k P)
  case Nil
  then show ?case by simp
next
  case (Cons v vs)
  have h0: "f v k = Inr (P 0)" using Cons.prems[of 0] by simp
  have ht: "\<And>j. j < length vs \<Longrightarrow> f (vs ! j) (Suc k + j) = Inr (P (Suc j))"
    using Cons.prems[of "Suc _"] by simp
  have "every_loop f (Suc k) vs = Inr (\<forall>j<length vs. P (Suc j))"
    by (rule Cons.IH[of "Suc k" "\<lambda>j. P (Suc j)"]) (rule ht)
  then show ?case using h0 by (auto simp: less_Suc_eq_0_disj)
qed

lemma some_loop_Inr:
  "(\<And>j. j < length xs \<Longrightarrow> f (xs ! j) (k + j) = Inr (P j)) \<Longrightarrow>
   some_loop f k xs = Inr (\<exists>j<length xs. P j)"
proof (induction xs arbitrary: k P)
  case Nil
  then show ?case by simp
next
  case (Cons v vs)
  have h0: "f v k = Inr (P 0)" using Cons.prems[of 0] by simp
  have ht: "\<And>j. j < length vs \<Longrightarrow> f (vs ! j) (Suc k + j) = Inr (P (Suc j))"
    using Cons.prems[of "Suc _"] by simp
  have "some_loop f (Suc k) vs = Inr (\<exists>j<length vs. P (Suc j))"
    by (rule Cons.IH[of "Suc k" "\<lambda>j. P (Suc j)"]) (rule ht)
  then show ?case using h0 by (auto simp: less_Suc_eq_0_disj)
qed

lemma map_loop_Inr:
  "(\<And>j. j < length xs \<Longrightarrow> f (xs ! j) (k + j) = Inr (h j)) \<Longrightarrow>
   map_loop f k xs = Inr (map h [0..<length xs])"
proof (induction xs arbitrary: k h)
  case Nil
  then show ?case by simp
next
  case (Cons v vs)
  have h0: "f v k = Inr (h 0)" using Cons.prems[of 0] by simp
  have ht: "\<And>j. j < length vs \<Longrightarrow> f (vs ! j) (Suc k + j) = Inr (h (Suc j))"
    using Cons.prems[of "Suc _"] by simp
  have "map_loop f (Suc k) vs = Inr (map (\<lambda>j. h (Suc j)) [0..<length vs])"
    by (rule Cons.IH[of "Suc k" "\<lambda>j. h (Suc j)"]) (rule ht)
  then show ?case using h0 by (simp add: upt_conv_Cons map_Suc_upt[symmetric] del: upt_Suc)
qed

lemma everyGrid_matrix:
  "everyGrid (matrix_grid rows) p =
     Inr (\<forall>r<length rows. \<forall>c<length (rows ! r). p (rows ! r ! c) (r, c))"
proof -
  have inner: "\<And>r. arr_every ''row'' (JArr (rows ! r)) (\<lambda>cell c. Inr (p cell (r, c))) =
        Inr (\<forall>c<length (rows ! r). p (rows ! r ! c) (r, c))"
  proof -
    fix r
    have "every_loop (\<lambda>cell c. Inr (p cell (r, c))) 0 (rows ! r) =
            Inr (\<forall>c<length (rows ! r). p (rows ! r ! c) (r, c))"
      by (rule every_loop_Inr) simp
    then show "arr_every ''row'' (JArr (rows ! r)) (\<lambda>cell c. Inr (p cell (r, c))) =
        Inr (\<forall>c<length (rows ! r). p (rows ! r ! c) (r, c))"
      by (simp add: arr_every_def)
  qed
  have "every_loop (\<lambda>row r. arr_every ''row'' row (\<lambda>cell c. Inr (p cell (r, c)))) 0 (map JArr rows)
          = Inr (\<forall>r<length (map JArr rows). \<forall>c<length (rows ! r). p (rows ! r ! c) (r, c))"
    by (rule every_loop_Inr) (simp add: inner)
  then show ?thesis by (simp add: everyGrid_def matrix_grid_def arr_every_def)
qed

lemma someGrid_matrix:
  "someGrid (matrix_grid rows) p =
     Inr (\<exists>r<length rows. \<exists>c<length (rows ! r). p (rows ! r ! c) (r, c))"
proof -
  have inner: "\<And>r. arr_some ''row'' (JArr (rows ! r)) (\<lambda>cell c. Inr (p cell (r, c))) =
        Inr (\<exists>c<length (rows ! r). p (rows ! r ! c) (r, c))"
  proof -
    fix r
    have "some_loop (\<lambda>cell c. Inr (p cell (r, c))) 0 (rows ! r) =
            Inr (\<exists>c<length (rows ! r). p (rows ! r ! c) (r, c))"
      by (rule some_loop_Inr) simp
    then show "arr_some ''row'' (JArr (rows ! r)) (\<lambda>cell c. Inr (p cell (r, c))) =
        Inr (\<exists>c<length (rows ! r). p (rows ! r ! c) (r, c))"
      by (simp add: arr_some_def)
  qed
  have "some_loop (\<lambda>row r. arr_some ''row'' row (\<lambda>cell c. Inr (p cell (r, c)))) 0 (map JArr rows)
          = Inr (\<exists>r<length (map JArr rows). \<exists>c<length (rows ! r). p (rows ! r ! c) (r, c))"
    by (rule some_loop_Inr) (simp add: inner)
  then show ?thesis by (simp add: someGrid_def matrix_grid_def arr_some_def)
qed

text \<open>
  C10.  On a grid of 9 rows of 9 cells, \<open>someGrid p\<close> is the negation of
  \<open>everyGrid\<close> of the negated predicate; \<open>someGrid p\<close> is true iff \<open>p\<close> holds at
  one of the 81 cells, \<open>everyGrid p\<close> iff it holds at all of them.  Neither
  call throws.
\<close>

theorem someGrid_everyGrid_duality:
  assumes "length rows = 9" and "list_all (\<lambda>r. length r = 9) rows"
  shows "someGrid (matrix_grid rows) p =
           map_sum id Not (everyGrid (matrix_grid rows) (\<lambda>cell pos. \<not> p cell pos)) \<and>
         someGrid (matrix_grid rows) p = Inr (\<exists>r<9. \<exists>c<9. p (rows ! r ! c) (r, c)) \<and>
         everyGrid (matrix_grid rows) p = Inr (\<forall>r<9. \<forall>c<9. p (rows ! r ! c) (r, c))"
proof -
  have len: "\<And>r. r < 9 \<Longrightarrow> length (rows ! r) = 9"
    using assms by (simp add: list_all_length)
  have ex: "\<And>Q. (\<exists>r<length rows. \<exists>c<length (rows ! r). Q r c) = (\<exists>r<9. \<exists>c<9. Q r c)"
    using assms(1) len by (metis (no_types, lifting))
  have al: "\<And>Q. (\<forall>r<length rows. \<forall>c<length (rows ! r). Q r c) = (\<forall>r<9. \<forall>c<9. Q r c)"
    using assms(1) len by (metis (no_types, lifting))
  show ?thesis
    by (simp add: someGrid_matrix everyGrid_matrix ex al)
qed


theorem someGrid_everyGrid_duality_witness:
  "length (map (map JNum) known_solution) = 9 \<and>
   list_all (\<lambda>r. length r = 9) (map (map JNum) known_solution) \<and>
   someGrid (matrix_grid (map (map JNum) known_solution)) (\<lambda>cell pos. cell = JNum 5) =
     map_sum id Not
       (everyGrid (matrix_grid (map (map JNum) known_solution)) (\<lambda>cell pos. \<not> cell = JNum 5)) \<and>
   someGrid (matrix_grid (map (map JNum) known_solution)) (\<lambda>cell pos. cell = JNum 5) =
     Inr (\<exists>r<9. \<exists>c<9. map (map JNum) known_solution ! r ! c = JNum 5) \<and>
   everyGrid (matrix_grid (map (map JNum) known_solution)) (\<lambda>cell pos. cell = JNum 5) =
     Inr (\<forall>r<9. \<forall>c<9. map (map JNum) known_solution ! r ! c = JNum 5)"
proof -
  have h1: "length (map (map JNum) known_solution) = 9" by code_simp
  have h2: "list_all (\<lambda>r. length r = 9) (map (map JNum) known_solution)" by code_simp
  show ?thesis
    using someGrid_everyGrid_duality[OF h1 h2, of "\<lambda>cell pos. cell = JNum 5"] h1 h2
    by blast
qed

lemma getCell_matrix:
  "r < length rows \<Longrightarrow> c < length (rows ! r) \<Longrightarrow>
   getCell (matrix_grid rows) (r, c) = Inr (rows ! r ! c)"
  by (simp add: getCell_def matrix_grid_def getProp_def)

lemma mapData_matrix:
  assumes "\<And>r c. r < length rows \<Longrightarrow> c < length (rows ! r) \<Longrightarrow>
             mapFn (rows ! r ! c) (r, c) = Inr (F r c)"
  shows "mapData (matrix_grid rows) mapFn =
           Inr (JArr (map (\<lambda>r. JArr (map (F r) [0..<length (rows ! r)])) [0..<length rows]))"
proof -
  have inner: "\<And>r. r < length rows \<Longrightarrow>
      arr_map ''row'' (JArr (rows ! r)) (\<lambda>cell c. mapFn cell (r, c)) =
        Inr (JArr (map (F r) [0..<length (rows ! r)]))"
  proof -
    fix r assume r: "r < length rows"
    have "map_loop (\<lambda>cell c. mapFn cell (r, c)) 0 (rows ! r) =
            Inr (map (F r) [0..<length (rows ! r)])"
      by (rule map_loop_Inr) (simp add: assms r)
    then show "arr_map ''row'' (JArr (rows ! r)) (\<lambda>cell c. mapFn cell (r, c)) =
        Inr (JArr (map (F r) [0..<length (rows ! r)]))"
      by (simp add: arr_map_def)
  qed
  have "map_loop (\<lambda>row r. arr_map ''row'' row (\<lambda>cell c. mapFn cell (r, c))) 0 (map JArr rows) =
          Inr (map (\<lambda>r. JArr (map (F r) [0..<length (rows ! r)])) [0..<length (map JArr rows)])"
    by (rule map_loop_Inr) (simp add: inner)
  then show ?thesis by (simp add: mapData_def matrix_grid_def arr_map_def)
qed

lemma editCell_matrix:
  assumes "y < length rows" and "x < length (rows ! y)"
  shows "editCell (matrix_grid rows) (y, x) fn =
           Inr (matrix_grid (rows[y := (rows ! y)[x := fn (rows ! y ! x) (y, x)]]))"
proof -
  let ?v = "fn (rows ! y ! x) (y, x)"
  let ?F = "\<lambda>r c. if equalsPos (y, x) (r, c) then ?v else rows ! r ! c"
  have md: "mapData (matrix_grid rows) (\<lambda>cell pos.
              if equalsPos (y, x) pos
              then (case getCell (matrix_grid rows) (y, x) of Inl e \<Rightarrow> Inl e | Inr v \<Rightarrow> Inr (fn v (y, x)))
              else Inr cell) =
           Inr (JArr (map (\<lambda>r. JArr (map (?F r) [0..<length (rows ! r)])) [0..<length rows]))"
    by (rule mapData_matrix) (simp add: getCell_matrix assms)
  have eq: "map (\<lambda>r. JArr (map (?F r) [0..<length (rows ! r)])) [0..<length rows] =
            map JArr (rows[y := (rows ! y)[x := ?v]])"
  proof (rule nth_equalityI)
    show "length (map (\<lambda>r. JArr (map (?F r) [0..<length (rows ! r)])) [0..<length rows]) =
          length (map JArr (rows[y := (rows ! y)[x := ?v]]))" by simp
  next
    fix i assume "i < length (map (\<lambda>r. JArr (map (?F r) [0..<length (rows ! r)])) [0..<length rows])"
    then have i: "i < length rows" by simp
    have "map (?F i) [0..<length (rows ! i)] = (rows[y := (rows ! y)[x := ?v]]) ! i"
    proof (cases "i = y")
      case True
      have B: "(rows[y := (rows ! y)[x := ?v]]) ! y = (rows ! y)[x := ?v]"
        using assms(1) by simp
      have A: "map (?F y) [0..<length (rows ! y)] = (rows ! y)[x := ?v]"
        by (rule nth_equalityI) (auto simp: equalsPos_def nth_list_update)
      show ?thesis unfolding True by (simp only: A B)
    next
      case False
      then have "(rows[y := (rows ! y)[x := ?v]]) ! i = rows ! i" by simp
      moreover have "map (?F i) [0..<length (rows ! i)] = rows ! i"
        using False by (intro nth_equalityI) (auto simp: equalsPos_def)
      ultimately show ?thesis by simp
    qed
    then show "map (\<lambda>r. JArr (map (?F r) [0..<length (rows ! r)])) [0..<length rows] ! i =
               map JArr (rows[y := (rows ! y)[x := ?v]]) ! i"
      using i by (simp cong: if_cong)
  qed
  show ?thesis
    unfolding editCell_def md by (simp add: eq GridSvc_new_def matrix_grid_def)
qed

text \<open>
  C7.  On a grid of 9 rows of 9 cells and a position in range, \<open>editCell\<close>
  returns the grid whose cell at the position is \<open>fn\<close> of the old cell and the
  position, and whose other 80 cells are those of the receiver.  The
  receiver is the argument value: \<open>editCell\<close> and \<open>#mapData\<close> build new arrays
  with \<open>map\<close> and assign nothing, so its cells read as before.
\<close>

theorem editCell_frame:
  assumes "length rows = 9" and "list_all (\<lambda>r. length r = 9) rows" and "y < 9" and "x < 9"
  shows "editCell (matrix_grid rows) (y, x) fn =
           Inr (matrix_grid (rows[y := (rows ! y)[x := fn (rows ! y ! x) (y, x)]])) \<and>
         getCell (matrix_grid (rows[y := (rows ! y)[x := fn (rows ! y ! x) (y, x)]])) (y, x) =
           Inr (fn (rows ! y ! x) (y, x)) \<and>
         (\<forall>r<9. \<forall>c<9. (r, c) \<noteq> (y, x) \<longrightarrow>
            getCell (matrix_grid (rows[y := (rows ! y)[x := fn (rows ! y ! x) (y, x)]])) (r, c) =
              Inr (rows ! r ! c) \<and>
            getCell (matrix_grid rows) (r, c) = Inr (rows ! r ! c))"
proof -
  have len: "\<And>r. r < 9 \<Longrightarrow> length (rows ! r) = 9"
    using assms(1,2) by (simp add: list_all_length)
  let ?rows' = "rows[y := (rows ! y)[x := fn (rows ! y ! x) (y, x)]]"
  have len': "length ?rows' = 9" using assms(1) by simp
  have lenr': "\<And>r. r < 9 \<Longrightarrow> length (?rows' ! r) = 9"
  proof -
    fix r :: nat assume r: "r < 9"
    show "length (?rows' ! r) = 9"
    proof (cases "r = y")
      case True
      then show ?thesis using assms(1,3) len[of y] by simp
    next
      case False
      then show ?thesis using len[OF r] by simp
    qed
  qed
  have a: "editCell (matrix_grid rows) (y, x) fn = Inr (matrix_grid ?rows')"
    using assms(1,3,4) len by (simp add: editCell_matrix)
  have b: "getCell (matrix_grid ?rows') (y, x) = Inr (fn (rows ! y ! x) (y, x))"
    using assms(1,3,4) len len' lenr' by (simp add: getCell_matrix)
  have c: "\<And>r c. r < 9 \<Longrightarrow> c < 9 \<Longrightarrow> (r, c) \<noteq> (y, x) \<Longrightarrow>
             getCell (matrix_grid ?rows') (r, c) = Inr (rows ! r ! c)"
  proof -
    fix r c :: nat assume rc: "r < 9" "c < 9" "(r, c) \<noteq> (y, x)"
    have "?rows' ! r ! c = rows ! r ! c"
    proof (cases "r = y")
      case True
      then have "c \<noteq> x" using rc(3) by simp
      then show ?thesis using True assms(1,3) by simp
    next
      case False
      then show ?thesis by simp
    qed
    then show "getCell (matrix_grid ?rows') (r, c) = Inr (rows ! r ! c)"
      using rc(1,2) len' lenr'[OF rc(1)] by (simp add: getCell_matrix)
  qed
  have d: "\<And>r c. r < 9 \<Longrightarrow> c < 9 \<Longrightarrow> getCell (matrix_grid rows) (r, c) = Inr (rows ! r ! c)"
    using assms(1) len by (simp add: getCell_matrix)
  show ?thesis using a b c d by blast
qed

theorem editCell_frame_witness:
  "length (map (map JNum) known_solution) = 9 \<and>
   list_all (\<lambda>r. length r = 9) (map (map JNum) known_solution) \<and>
   editCell (matrix_grid (map (map JNum) known_solution)) (4, 4) (\<lambda>v p. JNum 0) =
     Inr (matrix_grid ((map (map JNum) known_solution)
            [4 := (map (map JNum) known_solution ! 4)[4 := JNum 0]])) \<and>
   getCell (matrix_grid ((map (map JNum) known_solution)
            [4 := (map (map JNum) known_solution ! 4)[4 := JNum 0]])) (4, 4) = Inr (JNum 0)"
proof -
  have h1: "length (map (map JNum) known_solution) = 9" by code_simp
  have h2: "list_all (\<lambda>r. length r = 9) (map (map JNum) known_solution)" by code_simp
  have h3: "(4::nat) < 9" by simp
  show ?thesis
    using editCell_frame[OF h1 h2 h3 h3, of "\<lambda>v p. JNum 0"] h1 h2
    by blast
qed


lemma get_data_matrix: "get_data (matrix_grid rows) = Inr (JArr (map JArr rows))"
proof -
  have "mapData (matrix_grid rows) (\<lambda>cell _. Inr cell) =
          Inr (JArr (map (\<lambda>r. JArr (map (\<lambda>c. rows ! r ! c) [0..<length (rows ! r)]))
                  [0..<length rows]))"
    by (rule mapData_matrix) simp
  moreover have "map (\<lambda>r. JArr (map (\<lambda>c. rows ! r ! c) [0..<length (rows ! r)]))
                  [0..<length rows] = map JArr rows"
    by (rule nth_equalityI) (simp_all add: map_nth)
  ultimately show ?thesis by (simp add: get_data_def)
qed

lemma copy_matrix: "copy (matrix_grid rows) = Inr (matrix_grid rows)"
  unfolding copy_def get_data_matrix by (simp add: GridSvc_new_def matrix_grid_def)

lemma get_grid_grid_of: "get_grid \<lparr> grid = grid_of a \<rparr> = Inr (grid_of a)"
  by (simp add: get_grid_def grid_of_def copy_matrix)

lemma toJSON_grid_of:
  "toJSON \<lparr> grid = grid_of a \<rparr> = Inr (JArr (map (\<lambda>r. JArr (map JNum r)) a))"
  by (simp add: toJSON_def get_value_def grid_of_def get_data_matrix[unfolded get_data_def] comp_def)



subsection \<open>The invariant of the generator\<close>

lemma wf9_row: "wf9 v \<Longrightarrow> r < 9 \<Longrightarrow> length (v ! r) = 9"
  by (simp add: wf9_def list_all_length)

lemma wf9_update:
  assumes "wf9 v"
  shows "wf9 (v[r := (v ! r)[c := n]])"
proof -
  have lv: "length v = 9" and lr: "\<And>k. k < 9 \<Longrightarrow> length (v ! k) = 9"
    using assms by (simp_all add: wf9_def list_all_length)
  have "\<And>k. k < 9 \<Longrightarrow> length (v[r := (v ! r)[c := n]] ! k) = 9"
  proof -
    fix k :: nat assume k: "k < 9"
    show "length (v[r := (v ! r)[c := n]] ! k) = 9"
    proof (cases "k = r")
      case True
      then show ?thesis using k lv lr[of r] by simp
    next
      case False
      then show ?thesis using lr[OF k] by simp
    qed
  qed
  then show ?thesis using lv by (simp add: wf9_def list_all_length)
qed

lemma cellv_update:
  assumes "wf9 v" and "inrange p" and "inrange q"
  shows "cellv (v[fst p := (v ! fst p)[snd p := n]]) q = (if q = p then n else cellv v q)"
proof -
  have lv: "length v = 9" using assms(1) by (simp add: wf9_def)
  have lr: "length (v ! fst p) = 9" using assms(1,2) by (simp add: wf9_row inrange_def)
  show ?thesis
  proof (cases "fst q = fst p")
    case True
    then show ?thesis
      using lv lr assms(2,3)
      by (auto simp: cellv_def inrange_def nth_list_update prod_eq_iff)
  next
    case False
    then show ?thesis
      using lv assms(2,3) by (auto simp: cellv_def inrange_def)
  qed
qed

lemma cellIsSafe_loop_all:
  "cellIsSafe_loop v num p is =
     list_all (\<lambda>i. v ! fst p ! i \<noteq> num \<and> v ! i ! snd p \<noteq> num \<and>
                    v ! box_row i (fst p) ! box_col i (snd p) \<noteq> num) is"
  by (induction "is") auto

lemma cellIsSafe_iff:
  "cellIsSafe v num p =
     (cellv v p = 0 \<and>
      (\<forall>i<9. cellv v (fst p, i) \<noteq> num \<and> cellv v (i, snd p) \<noteq> num \<and>
              cellv v (box_row i (fst p), box_col i (snd p)) \<noteq> num))"
  by (auto simp: cellIsSafe_def cellIsSafe_loop_all list_all_iff cellv_def)

lemma box_index_row:
  fixes a b r :: nat
  assumes "a div 3 = r div 3"
  shows "box_row ((a mod 3) * 3 + b mod 3) r = a"
proof -
  have "((a mod 3) * 3 + b mod 3) div 3 = a mod 3" by simp
  moreover have "(a div 3) * 3 + a mod 3 = a" by simp
  ultimately show ?thesis unfolding box_row_def assms[symmetric] by simp
qed

lemma box_index_col:
  fixes a b c :: nat
  assumes "b div 3 = c div 3"
  shows "box_col ((a mod 3) * 3 + b mod 3) c = b"
proof -
  have "((a mod 3) * 3 + b mod 3) mod 3 = b mod 3" by simp
  moreover have "(b div 3) * 3 + b mod 3 = b" by simp
  ultimately show ?thesis unfolding box_col_def assms[symmetric] by simp
qed

lemma box_index_lt: "((a::nat) mod 3) * 3 + b mod 3 < 9"
proof -
  have "a mod 3 < 3" "b mod 3 < 3" by simp_all
  then show ?thesis by linarith
qed

lemma base3_unique:
  fixes x y z w :: nat
  shows "y < 3 \<Longrightarrow> w < 3 \<Longrightarrow> x * 3 + y = z * 3 + w \<Longrightarrow> x = z \<and> y = w"
  by presburger

lemma same_box:
  assumes "inrange p" and "inrange q" and "getBoxFromPos p = getBoxFromPos q"
  shows "fst q div 3 = fst p div 3 \<and> snd q div 3 = snd p div 3"
proof -
  have "snd p < 9" "snd q < 9" using assms(1,2) by (simp_all add: inrange_def)
  then have "snd p div 3 < 3" "snd q div 3 < 3" by simp_all
  then have "fst p div 3 = fst q div 3 \<and> snd p div 3 = snd q div 3"
    using assms(3) unfolding getBoxFromPos_def by (rule base3_unique)
  then show ?thesis by simp
qed

lemma cellIsSafe_related:
  assumes "cellIsSafe v num p" and "inrange p" and "inrange q" and "areRelated p q"
  shows "cellv v q \<noteq> num"
proof -
  from assms(1) have scan: "\<And>i. i < 9 \<Longrightarrow> cellv v (fst p, i) \<noteq> num \<and> cellv v (i, snd p) \<noteq> num \<and>
              cellv v (box_row i (fst p), box_col i (snd p)) \<noteq> num"
    by (simp add: cellIsSafe_iff)
  from assms(4) consider "fst p = fst q" | "snd p = snd q" | "getBoxFromPos p = getBoxFromPos q"
    by (auto simp: areRelated_def)
  then show ?thesis
  proof cases
    case 1
    have "cellv v (fst p, snd q) \<noteq> num" using scan[of "snd q"] assms(3) by (simp add: inrange_def)
    then show ?thesis using 1 by simp
  next
    case 2
    have "cellv v (fst q, snd p) \<noteq> num" using scan[of "fst q"] assms(3) by (simp add: inrange_def)
    then show ?thesis using 2 by simp
  next
    case 3
    from same_box[OF assms(2,3) 3] have d: "fst q div 3 = fst p div 3" "snd q div 3 = snd p div 3"
      by simp_all
    let ?i = "(fst q mod 3) * 3 + snd q mod 3"
    have "cellv v (box_row ?i (fst p), box_col ?i (snd p)) \<noteq> num"
      using scan[of ?i] box_index_lt[of "fst q" "snd q"] by simp
    then show ?thesis by (simp add: box_index_row[OF d(1)] box_index_col[OF d(2)])
  qed
qed

lemma cellIsSafe_zero: "cellIsSafe v num p \<Longrightarrow> cellv v p = 0"
  by (simp add: cellIsSafe_iff)

lemma areRelated_sym: "areRelated p q = areRelated q p"
  by (auto simp: areRelated_def)

lemma step_ok:
  assumes ok: "partial_ok v" and p: "inrange p" and num: "1 \<le> num" "num \<le> 9"
  defines "v' \<equiv> (if cellIsSafe v num p then v[fst p := (v ! fst p)[snd p := num]] else v)"
  shows "partial_ok v'" and "\<And>q. inrange q \<Longrightarrow> cellv v q \<noteq> 0 \<Longrightarrow> cellv v' q = cellv v q"
proof -
  have wf: "wf9 v" using ok unfolding partial_ok_def by blast
  have rng: "\<And>q. inrange q \<Longrightarrow> 0 \<le> cellv v q \<and> cellv v q \<le> 9"
    using ok unfolding partial_ok_def by blast
  have nd: "\<And>a b. inrange a \<Longrightarrow> inrange b \<Longrightarrow> a \<noteq> b \<Longrightarrow> areRelated a b \<Longrightarrow>
             cellv v a \<noteq> 0 \<Longrightarrow> cellv v a \<noteq> cellv v b"
    using ok unfolding partial_ok_def by blast
  show "partial_ok v'"
  proof (cases "cellIsSafe v num p")
    case False
    then show ?thesis using ok by (simp add: v'_def)
  next
    case True
    have v': "v' = v[fst p := (v ! fst p)[snd p := num]]" using True by (simp add: v'_def)
    have c': "\<And>q. inrange q \<Longrightarrow> cellv v' q = (if q = p then num else cellv v q)"
      unfolding v' using wf p by (rule cellv_update)
    have wf': "wf9 v'" unfolding v' using wf by (rule wf9_update)
    have rng': "\<And>q. inrange q \<Longrightarrow> 0 \<le> cellv v' q \<and> cellv v' q \<le> 9"
      using rng num by (simp add: c')
    have nd': "\<And>a b. inrange a \<Longrightarrow> inrange b \<Longrightarrow> a \<noteq> b \<Longrightarrow> areRelated a b \<Longrightarrow>
             cellv v' a \<noteq> 0 \<Longrightarrow> cellv v' a \<noteq> cellv v' b"
    proof -
      fix a b assume a: "inrange a" and b: "inrange b" and ab: "a \<noteq> b" and rel: "areRelated a b"
        and nz: "cellv v' a \<noteq> 0"
      show "cellv v' a \<noteq> cellv v' b"
      proof (cases "a = p")
        case True
        then have "cellv v b \<noteq> num" using cellIsSafe_related[OF \<open>cellIsSafe v num p\<close> p b] rel by simp
        then show ?thesis using True ab a b by (simp add: c')
      next
        case ap: False
        show ?thesis
        proof (cases "b = p")
          case True
          have "areRelated p a" using rel True by (simp add: areRelated_sym)
          then have "cellv v a \<noteq> num" using cellIsSafe_related[OF \<open>cellIsSafe v num p\<close> p a] by simp
          then show ?thesis using True ap a b by (simp add: c')
        next
          case False
          then show ?thesis using ap a b nd[OF a b ab rel] nz by (simp add: c')
        qed
      qed
    qed
    show ?thesis unfolding partial_ok_def using wf' rng' nd' by blast
  qed
  show "\<And>q. inrange q \<Longrightarrow> cellv v q \<noteq> 0 \<Longrightarrow> cellv v' q = cellv v q"
  proof -
    fix q assume q: "inrange q" and nz: "cellv v q \<noteq> 0"
    show "cellv v' q = cellv v q"
    proof (cases "cellIsSafe v num p")
      case False
      then show ?thesis by (simp add: v'_def)
    next
      case True
      then have "q \<noteq> p" using cellIsSafe_zero nz by blast
      then show ?thesis using True cellv_update[OF wf p q] by (simp add: v'_def)
    qed
  qed
qed

lemma place_ok:
  assumes "partial_ok v" and "inrange p" and "list_all (\<lambda>n. 1 \<le> n \<and> n \<le> 9) numbers"
  shows "partial_ok (place v numbers p) \<and>
         (\<forall>q. inrange q \<longrightarrow> cellv v q \<noteq> 0 \<longrightarrow> cellv (place v numbers p) q = cellv v q)"
  using assms
proof (induction numbers arbitrary: v)
  case Nil
  then show ?case by simp
next
  case (Cons num rest)
  let ?v' = "if cellIsSafe v num p then v[fst p := (v ! fst p)[snd p := num]] else v"
  have num: "1 \<le> num" "num \<le> 9" and rest: "list_all (\<lambda>n. 1 \<le> n \<and> n \<le> 9) rest"
    using Cons.prems(3) by simp_all
  have ok': "partial_ok ?v'" by (rule step_ok(1)[OF Cons.prems(1,2) num])
  have keep: "\<And>q. inrange q \<Longrightarrow> cellv v q \<noteq> 0 \<Longrightarrow> cellv ?v' q = cellv v q"
    by (rule step_ok(2)[OF Cons.prems(1,2) num])
  from Cons.IH[OF ok' Cons.prems(2) rest]
  have ih: "partial_ok (place ?v' rest p)"
    "\<And>q. inrange q \<Longrightarrow> cellv ?v' q \<noteq> 0 \<Longrightarrow> cellv (place ?v' rest p) q = cellv ?v' q"
    by blast+
  have "place v (num # rest) p = place ?v' rest p" by simp
  moreover have "\<And>q. inrange q \<Longrightarrow> cellv v q \<noteq> 0 \<Longrightarrow> cellv (place ?v' rest p) q = cellv v q"
  proof -
    fix q assume q: "inrange q" and nz: "cellv v q \<noteq> 0"
    have "cellv ?v' q = cellv v q" by (rule keep[OF q nz])
    moreover from this nz have "cellv ?v' q \<noteq> 0" by simp
    ultimately show "cellv (place ?v' rest p) q = cellv v q" using ih(2)[OF q] by simp
  qed
  ultimately show ?case using ih(1) by (simp del: place.simps)
qed

lemma cellv_createMatrix: "inrange p \<Longrightarrow> cellv (createMatrix 9 f) p = f p"
  by (simp add: cellv_def createMatrix_def inrange_def)

lemma wf9_createMatrix: "wf9 (createMatrix 9 f)"
  by (simp add: wf9_def createMatrix_def list_all_iff)

lemma partial_ok_zero: "partial_ok (createMatrix 9 (\<lambda>_. 0))"
  unfolding partial_ok_def by (simp add: wf9_createMatrix cellv_createMatrix)

lemma filled_zero: "filled v 0 0"
  by (simp add: filled_def)

lemma filled_all:
  assumes "filled v i j" and "9 \<le> i" and "inrange p"
  shows "cellv v p \<noteq> 0"
proof (cases "fst p \<le> snd p")
  case True
  have "cellv v (fst p, snd p) \<noteq> 0"
    using assms True unfolding filled_def inrange_def
    by (metis (no_types, lifting) le_trans not_le order.strict_implies_order)
  then show ?thesis by simp
next
  case False
  then have "snd p \<le> fst p" by simp
  have "cellv v (fst p, snd p) \<noteq> 0"
    using assms \<open>snd p \<le> fst p\<close> unfolding filled_def inrange_def
    by (metis (no_types, lifting) le_trans not_le order.strict_implies_order)
  then show ?thesis by simp
qed

lemma filled_step:
  assumes f: "filled v i j" and ij: "i \<le> j" "j < 9"
    and keep: "\<forall>q. inrange q \<longrightarrow> cellv v q \<noteq> 0 \<longrightarrow> cellv v2 q = cellv v q"
    and nz: "cellv v2 (i, j) \<noteq> 0" "cellv v2 (j, i) \<noteq> 0"
  shows "filled v2 i (j + 1)" and "j + 1 = 9 \<Longrightarrow> filled v2 (i + 1) (i + 1)"
proof -
  have core: "\<And>a b. a \<le> b \<Longrightarrow> b < 9 \<Longrightarrow> a < i \<or> (a = i \<and> b < j + 1) \<Longrightarrow>
        cellv v2 (a, b) \<noteq> 0 \<and> cellv v2 (b, a) \<noteq> 0"
  proof -
    fix a b assume ab: "a \<le> b" "b < 9" and c: "a < i \<or> (a = i \<and> b < j + 1)"
    show "cellv v2 (a, b) \<noteq> 0 \<and> cellv v2 (b, a) \<noteq> 0"
    proof (cases "a = i \<and> b = j")
      case True
      then show ?thesis using nz by simp
    next
      case False
      then have "a < i \<or> (a = i \<and> b < j)" using c by auto
      then have old: "cellv v (a, b) \<noteq> 0 \<and> cellv v (b, a) \<noteq> 0"
        using f ab unfolding filled_def by blast
      have r1: "inrange (a, b)" and r2: "inrange (b, a)" using ab by (simp_all add: inrange_def)
      show ?thesis using keep r1 r2 old by simp
    qed
  qed
  show "filled v2 i (j + 1)" unfolding filled_def using core by blast
  show "filled v2 (i + 1) (i + 1)" if "j + 1 = 9"
    unfolding filled_def
  proof (intro allI impI)
    fix a b assume ab: "a \<le> b" "b < 9" and c: "a < i + 1 \<or> (a = i + 1 \<and> b < i + 1)"
    from c ab(1) have "a < i + 1" by auto
    then have "a < i \<or> (a = i \<and> b < j + 1)" using ab(2) that by auto
    then show "cellv v2 (a, b) \<noteq> 0 \<and> cellv v2 (b, a) \<noteq> 0" by (rule core[OF ab])
  qed
qed

lemma fillSolution_loop_ok:
  assumes "fillSolution_loop v i j draws = Some w"
    and "partial_ok v" and "filled v i j" and "i < 9 \<longrightarrow> i \<le> j \<and> j < 9"
    and "list_all (\<lambda>numbers. list_all (\<lambda>n. 1 \<le> n \<and> n \<le> 9) numbers) draws"
  shows "partial_ok w \<and> (\<forall>p. inrange p \<longrightarrow> cellv w p \<noteq> 0)"
  using assms
proof (induction draws arbitrary: v i j)
  case Nil
  then have "9 \<le> i" and "w = v" by (simp_all split: if_splits)
  then show ?case using Nil.prems(2,3) filled_all by blast
next
  case (Cons numbers draws)
  show ?case
  proof (cases "9 \<le> i")
    case True
    then have "w = v" using Cons.prems(1) by simp
    then show ?thesis using True Cons.prems(2,3) filled_all by blast
  next
    case False
    then have ij: "i \<le> j" "j < 9" "i < 9" using Cons.prems(4) by simp_all
    have rij: "inrange (i, j)" and rji: "inrange (j, i)" using ij by (simp_all add: inrange_def)
    have nums: "list_all (\<lambda>n. 1 \<le> n \<and> n \<le> 9) numbers"
      and rest: "list_all (\<lambda>numbers. list_all (\<lambda>n. 1 \<le> n \<and> n \<le> 9) numbers) draws"
      using Cons.prems(5) by simp_all
    have rnums: "list_all (\<lambda>n. 1 \<le> n \<and> n \<le> 9) (rev numbers)"
      using nums by (simp add: list_all_iff)
    define v1 where "v1 = place v numbers (i, j)"
    define v2 where "v2 = place v1 (rev numbers) (j, i)"
    have p1: "partial_ok v1"
      and k1: "\<And>q. inrange q \<Longrightarrow> cellv v q \<noteq> 0 \<Longrightarrow> cellv v1 q = cellv v q"
      using place_ok[OF Cons.prems(2) rij nums] unfolding v1_def by blast+
    have p2: "partial_ok v2"
      and k2: "\<And>q. inrange q \<Longrightarrow> cellv v1 q \<noteq> 0 \<Longrightarrow> cellv v2 q = cellv v1 q"
      using place_ok[OF p1 rji rnums] unfolding v2_def by blast+
    have keep: "\<forall>q. inrange q \<longrightarrow> cellv v q \<noteq> 0 \<longrightarrow> cellv v2 q = cellv v q"
    proof (intro allI impI)
      fix q assume q: "inrange q" and nz: "cellv v q \<noteq> 0"
      have "cellv v1 q = cellv v q" by (rule k1[OF q nz])
      then show "cellv v2 q = cellv v q" using k2[OF q] nz by simp
    qed
    have unfold: "fillSolution_loop v i j (numbers # draws) =
        (if v2 ! i ! j = 0 \<or> v2 ! j ! i = 0
         then fillSolution_loop (createMatrix 9 (\<lambda>_. 0)) 0 0 draws
         else if j + 1 < 9 then fillSolution_loop v2 i (j + 1) draws
         else fillSolution_loop v2 (i + 1) (i + 1) draws)"
      using False by (simp add: v1_def v2_def Let_def)
    show ?thesis
    proof (cases "v2 ! i ! j = 0 \<or> v2 ! j ! i = 0")
      case True
      then have "fillSolution_loop (createMatrix 9 (\<lambda>_. 0)) 0 0 draws = Some w"
        using Cons.prems(1) unfold by simp
      then show ?thesis
        by (rule Cons.IH[OF _ partial_ok_zero filled_zero _ rest]) simp
    next
      case nz: False
      then have nz': "cellv v2 (i, j) \<noteq> 0" "cellv v2 (j, i) \<noteq> 0" by (simp_all add: cellv_def)
      note fs = filled_step[OF Cons.prems(3) ij(1,2) keep nz']
      show ?thesis
      proof (cases "j + 1 < 9")
        case True
        then have "fillSolution_loop v2 i (j + 1) draws = Some w"
          using Cons.prems(1) unfold nz by simp
        then show ?thesis
          using True ij by (intro Cons.IH[OF _ p2 fs(1) _ rest]) simp_all
      next
        case False
        then have j9: "j + 1 = 9" using ij(2) by simp
        have "fillSolution_loop v2 (i + 1) (i + 1) draws = Some w"
          using Cons.prems(1) unfold nz False by simp
        then show ?thesis
          by (intro Cons.IH[OF _ p2 fs(2)[OF j9] _ rest]) simp_all
      qed
    qed
  qed
qed

subsection \<open>The validator on a grid of 9 rows of 9 digits\<close>

lemma getCell_grid_of:
  assumes "wf9 v" and "inrange p"
  shows "getCell (grid_of v) p = Inr (JNum (cellv v p))"
proof -
  have "fst p < length (map (map JNum) v)" using assms by (simp add: wf9_def inrange_def)
  moreover have "snd p < length (map (map JNum) v ! fst p)"
    using assms wf9_row[OF assms(1), of "fst p"] by (simp add: wf9_def inrange_def)
  ultimately have "getCell (matrix_grid (map (map JNum) v)) (fst p, snd p) =
      Inr (map (map JNum) v ! fst p ! snd p)" by (rule getCell_matrix)
  then show ?thesis
    using assms wf9_row[OF assms(1), of "fst p"]
    by (simp add: grid_of_def cellv_def wf9_def inrange_def)
qed

lemma compareRelated_loop_grid:
  assumes "wf9 v" and "inrange pos" and "list_all inrange ps"
  shows "compareRelated_loop (grid_of v) pos fn ps =
           Inr (list_all (\<lambda>q. areRelated pos q \<longrightarrow>
                  fn (JNum (cellv v pos)) (JNum (cellv v q)) q) ps)"
  using assms(3)
proof (induction ps)
  case Nil
  then show ?case by simp
next
  case (Cons q ps)
  then have q: "inrange q" and ps: "list_all inrange ps" by simp_all
  show ?case
    by (simp add: getCell_grid_of[OF assms(1,2)] getCell_grid_of[OF assms(1) q] Cons.IH[OF ps])
qed

lemma inrange_iterateMatrix: "list_all inrange (iterateMatrix 9)"
  by (simp add: iterateMatrix_def list_all_iff inrange_def)

lemma set_iterateMatrix: "set (iterateMatrix 9) = {p. inrange p}"
  by (auto simp: iterateMatrix_def inrange_def)

lemma compareRelated_grid:
  assumes "wf9 v" and "inrange pos"
  shows "compareRelated (grid_of v) pos fn =
           Inr (\<forall>q. inrange q \<longrightarrow> areRelated pos q \<longrightarrow>
                  fn (JNum (cellv v pos)) (JNum (cellv v q)) q)"
  unfolding compareRelated_def
  by (simp add: compareRelated_loop_grid[OF assms inrange_iterateMatrix] list_all_iff
        set_iterateMatrix)

lemma check_loop_grid:
  assumes "wf9 v" and "list_all inrange ps"
  shows "check_loop (grid_of v) ps =
           Inr (list_all (\<lambda>pos. \<exists>q. inrange q \<and> areRelated pos q \<and> cellv v pos \<noteq> cellv v q) ps)"
  using assms(2)
proof (induction ps)
  case Nil
  then show ?case by simp
next
  case (Cons pos ps)
  then have pos: "inrange pos" and ps: "list_all inrange ps" by simp_all
  show ?case
    by (simp add: compareRelated_grid[OF assms(1) pos] strict_equals_def Cons.IH[OF ps])
qed

lemma check_grid:
  assumes "wf9 v"
  shows "check (grid_of v) =
           Inr (\<forall>pos. inrange pos \<longrightarrow>
                  (\<exists>q. inrange q \<and> areRelated pos q \<and> cellv v pos \<noteq> cellv v q))"
  unfolding check_def
  by (simp add: check_loop_grid[OF assms inrange_iterateMatrix] list_all_iff set_iterateMatrix)

lemma check_valid:
  assumes "wf9 v"
    and "\<forall>p q. inrange p \<longrightarrow> inrange q \<longrightarrow> p \<noteq> q \<longrightarrow> areRelated p q \<longrightarrow> cellv v p \<noteq> cellv v q"
  shows "check (grid_of v) = Inr True"
proof -
  have "\<exists>q. inrange q \<and> areRelated pos q \<and> cellv v pos \<noteq> cellv v q" if pos: "inrange pos" for pos
  proof -
    define q where "q = (fst pos, if snd pos = 0 then 1 else (0::nat))"
    have "inrange q" using pos by (simp add: q_def inrange_def)
    moreover have "areRelated pos q" by (simp add: q_def areRelated_def)
    moreover have "pos \<noteq> q" by (auto simp: q_def prod_eq_iff)
    ultimately show ?thesis using assms(2) pos by blast
  qed
  then show ?thesis by (simp add: check_grid[OF assms(1)])
qed

text \<open>
  C2.  Whenever \<open>create\<close> returns, whatever orderings of digits 1 to 9 were
  drawn, the solution it returns has a grid of 9 rows of 9 cells in which
  every cell holds a digit from 1 to 9, no two different related cells (same
  row, column or box) hold the same digit, and on which \<open>check\<close> answers true.
\<close>

theorem create_postcondition:
  assumes "create draws = Some res"
    and "list_all (\<lambda>numbers. list_all (\<lambda>n. 1 \<le> n \<and> n \<le> 9) numbers) draws"
  shows "\<exists>v. res = Inr \<lparr> grid = grid_of v \<rparr> \<and>
           get_grid \<lparr> grid = grid_of v \<rparr> = Inr (grid_of v) \<and>
           length v = 9 \<and> (\<forall>r<9. length (v ! r) = 9) \<and>
           (\<forall>r<9. \<forall>c<9. 1 \<le> v ! r ! c \<and> v ! r ! c \<le> 9 \<and>
                          getCell (grid_of v) (r, c) = Inr (JNum (v ! r ! c))) \<and>
           (\<forall>r<9. \<forall>c<9. \<forall>r'<9. \<forall>c'<9. (r, c) \<noteq> (r', c') \<longrightarrow> areRelated (r, c) (r', c') \<longrightarrow>
                          v ! r ! c \<noteq> v ! r' ! c') \<and>
           check (grid_of v) = Inr True"
proof -
  from assms(1) obtain v where loop: "fillSolution_loop (createMatrix 9 (\<lambda>_. 0)) 0 0 draws = Some v"
    and g: "res = Inr \<lparr> grid = grid_of v \<rparr>"
    by (auto simp: create_def fillSolution_def GridSvc_new_def grid_of_def matrix_grid_def comp_def
          split: option.splits sum.splits)
  have gg: "get_grid \<lparr> grid = grid_of v \<rparr> = Inr (grid_of v)" by (rule get_grid_grid_of)
  have "partial_ok v \<and> (\<forall>p. inrange p \<longrightarrow> cellv v p \<noteq> 0)"
    by (rule fillSolution_loop_ok[OF loop partial_ok_zero filled_zero _ assms(2)]) simp
  then have ok: "partial_ok v" and full: "\<And>p. inrange p \<Longrightarrow> cellv v p \<noteq> 0" by blast+
  have wf: "wf9 v" using ok unfolding partial_ok_def by blast
  have rng: "\<And>p. inrange p \<Longrightarrow> 0 \<le> cellv v p \<and> cellv v p \<le> 9"
    using ok unfolding partial_ok_def by blast
  have nd: "\<forall>p q. inrange p \<longrightarrow> inrange q \<longrightarrow> p \<noteq> q \<longrightarrow> areRelated p q \<longrightarrow> cellv v p \<noteq> cellv v q"
    using ok full unfolding partial_ok_def by blast
  have a: "length v = 9" using wf by (simp add: wf9_def)
  have b: "\<forall>r<9. length (v ! r) = 9" using wf by (simp add: wf9_row)
  have c: "\<forall>r<9. \<forall>c<9. 1 \<le> v ! r ! c \<and> v ! r ! c \<le> 9 \<and>
                          getCell (grid_of v) (r, c) = Inr (JNum (v ! r ! c))"
  proof (intro allI impI)
    fix r c :: nat assume "r < 9" "c < 9"
    then have p: "inrange (r, c)" by (simp add: inrange_def)
    have "cellv v (r, c) \<noteq> 0" by (rule full[OF p])
    then have "1 \<le> cellv v (r, c) \<and> cellv v (r, c) \<le> 9" using rng[OF p] by linarith
    then show "1 \<le> v ! r ! c \<and> v ! r ! c \<le> 9 \<and>
                          getCell (grid_of v) (r, c) = Inr (JNum (v ! r ! c))"
      using getCell_grid_of[OF wf p] by (simp add: cellv_def)
  qed
  have d: "\<forall>r<9. \<forall>c<9. \<forall>r'<9. \<forall>c'<9. (r, c) \<noteq> (r', c') \<longrightarrow> areRelated (r, c) (r', c') \<longrightarrow>
                          v ! r ! c \<noteq> v ! r' ! c'"
  proof (intro allI impI)
    fix r c r' c' :: nat
    assume h: "r < 9" "c < 9" "r' < 9" "c' < 9" "(r, c) \<noteq> (r', c')" "areRelated (r, c) (r', c')"
    have "inrange (r, c)" "inrange (r', c')" using h by (simp_all add: inrange_def)
    then have "cellv v (r, c) \<noteq> cellv v (r', c')" using nd h(5,6) by blast
    then show "v ! r ! c \<noteq> v ! r' ! c'" by (simp add: cellv_def)
  qed
  have e: "check (grid_of v) = Inr True" by (rule check_valid[OF wf nd])
  show ?thesis using g gg a b c d e by blast
qed

theorem create_postcondition_witness:
  "create sample_draws = Some (Inr \<lparr> grid = grid_of sample_result \<rparr>) \<and>
   list_all (\<lambda>numbers. list_all (\<lambda>n. 1 \<le> n \<and> n \<le> 9) numbers) sample_draws \<and>
   (\<exists>v. Inr \<lparr> grid = grid_of sample_result \<rparr> = Inr \<lparr> grid = grid_of v \<rparr> \<and>
        get_grid \<lparr> grid = grid_of v \<rparr> = Inr (grid_of v) \<and>
        length v = 9 \<and> (\<forall>r<9. length (v ! r) = 9) \<and>
        (\<forall>r<9. \<forall>c<9. 1 \<le> v ! r ! c \<and> v ! r ! c \<le> 9 \<and>
                       getCell (grid_of v) (r, c) = Inr (JNum (v ! r ! c))) \<and>
        (\<forall>r<9. \<forall>c<9. \<forall>r'<9. \<forall>c'<9. (r, c) \<noteq> (r', c') \<longrightarrow> areRelated (r, c) (r', c') \<longrightarrow>
                       v ! r ! c \<noteq> v ! r' ! c') \<and>
        check (grid_of v) = Inr True)"
proof -
  have h1: "create sample_draws = Some (Inr \<lparr> grid = grid_of sample_result \<rparr>)" by code_simp
  have h2: "list_all (\<lambda>numbers. list_all (\<lambda>n. 1 \<le> n \<and> n \<le> 9) numbers) sample_draws"
    by code_simp
  show ?thesis using create_postcondition[OF h1 h2] h1 h2 by blast
qed

subsection \<open>The validator on arbitrary data\<close>






















subsection \<open>The parser consumes its input\<close>

text \<open>
  A successful parse leaves less text than it was given, so the length tests
  of \<open>parse_elems\<close> and \<open>parse_members\<close> always succeed, and the two functions
  satisfy their equations without the tests.
\<close>

lemma skip_ws_length: "skip_ws cs = c # r \<Longrightarrow> length r < length cs"
proof -
  assume a: "skip_ws cs = c # r"
  have "length (skip_ws cs) \<le> length cs" unfolding skip_ws_def by (rule length_dropWhile_le)
  then show ?thesis using a by simp
qed

lemma parse_number_length:
  assumes "parse_number cs = Some (v, rest)"
  shows "length rest < length cs"
proof -
  define neg where "neg = (take 1 cs = ''-'')"
  define cs1 where "cs1 = (if neg then drop 1 cs else cs)"
  define ds where "ds = (if take 1 cs1 = ''0'' then ''0'' else takeWhile is_digit cs1)"
  have r: "ds \<noteq> []" "rest = drop (length ds) cs1"
    using assms unfolding parse_number_def Let_def neg_def[symmetric] cs1_def[symmetric]
      ds_def[symmetric]
    by (auto split: if_splits)
  have "length ds \<le> length cs1"
  proof (cases "take 1 cs1 = ''0''")
    case True
    then have "cs1 \<noteq> []" by auto
    then show ?thesis using True by (cases cs1) (simp_all add: ds_def)
  next
    case False
    then show ?thesis by (simp add: ds_def length_takeWhile_le)
  qed
  moreover have "0 < length ds" using r(1) by simp
  moreover have "length cs1 \<le> length cs" by (simp add: cs1_def)
  moreover have "length rest = length cs1 - length ds" using r(2) by simp
  ultimately show ?thesis by linarith
qed

lemma parse_string_length:
  assumes "parse_string cs = Some (s, rest)"
  shows "length rest < length cs"
proof -
  let ?d = "dropWhile (\<lambda>c. c \<noteq> CHR 0x22) cs"
  have d: "?d \<noteq> []" and r: "rest = tl ?d"
    using assms by (auto simp: parse_string_def Let_def split: if_splits)
  have "length ?d \<le> length cs" by (rule length_dropWhile_le)
  moreover have "length (tl ?d) < length ?d" using d by (cases ?d) simp_all
  ultimately show ?thesis using r by simp
qed

lemma parse_consumes:
  "(\<forall>v rest. parse_value cs = Some (v, rest) \<longrightarrow> length rest < length cs)"
  "(\<forall>vs rest. parse_elems cs1 acc1 = Some (vs, rest) \<longrightarrow> length rest < length cs1)"
  "(\<forall>kvs rest. parse_members cs2 acc2 = Some (kvs, rest) \<longrightarrow> length rest < length cs2)"
proof (induction cs and cs1 acc1 and cs2 acc2 rule: parse_value_parse_elems_parse_members.induct)
  case (1 cs)
  show ?case
  proof (intro allI impI)
    fix v rest assume a: "parse_value cs = Some (v, rest)"
    show "length rest < length cs"
    proof (cases "skip_ws cs")
      case Nil
      then show ?thesis using a by (subst (asm) parse_value.simps) simp
    next
      case (Cons c r)
      note lr = skip_ws_length[OF Cons]
      consider (arr) "c = CHR ''[''" | (obj) "c \<noteq> CHR ''[''" "c = CHR ''{''"
        | (str) "c \<noteq> CHR ''[''" "c \<noteq> CHR ''{''" "c = CHR 0x22"
        | (other) "c \<noteq> CHR ''[''" "c \<noteq> CHR ''{''" "c \<noteq> CHR 0x22" by blast
      then show ?thesis
      proof cases
        case arr
        show ?thesis
        proof (cases "skip_ws r")
          case Nil
          then show ?thesis using a Cons arr by (subst (asm) parse_value.simps) simp
        next
          case (Cons d r')
          note lr' = skip_ws_length[OF Cons]
          show ?thesis
          proof (cases "d = CHR '']''")
            case True
            then show ?thesis using a \<open>skip_ws cs = c # r\<close> arr Cons lr lr'
              by (subst (asm) parse_value.simps) auto
          next
            case False
            from "1.IH"(1)[OF \<open>skip_ws cs = c # r\<close> arr Cons False]
            have "\<forall>vs rest. parse_elems r [] = Some (vs, rest) \<longrightarrow> length rest < length r" .
            then show ?thesis using a \<open>skip_ws cs = c # r\<close> arr Cons False lr
              by (subst (asm) parse_value.simps) (auto split: option.splits)
          qed
        qed
      next
        case obj
        show ?thesis
        proof (cases "skip_ws r")
          case Nil
          then show ?thesis using a Cons obj by (subst (asm) parse_value.simps) simp
        next
          case (Cons d r')
          note lr' = skip_ws_length[OF Cons]
          show ?thesis
          proof (cases "d = CHR ''}''")
            case True
            then show ?thesis using a \<open>skip_ws cs = c # r\<close> obj Cons lr lr'
              by (subst (asm) parse_value.simps) auto
          next
            case False
            from "1.IH"(2)[OF \<open>skip_ws cs = c # r\<close> obj Cons False]
            have "\<forall>kvs rest. parse_members r [] = Some (kvs, rest) \<longrightarrow> length rest < length r" .
            then show ?thesis using a \<open>skip_ws cs = c # r\<close> obj Cons False lr
              by (subst (asm) parse_value.simps) (auto split: option.splits)
          qed
        qed
      next
        case str
        then show ?thesis using a Cons lr parse_string_length
          by (subst (asm) parse_value.simps) (fastforce split: option.splits)
      next
        case other
        have "parse_value cs =
          (if take 4 (c # r) = ''true'' then Some (JBool True, drop 4 (c # r))
           else if take 5 (c # r) = ''false'' then Some (JBool False, drop 5 (c # r))
           else if take 4 (c # r) = ''null'' then Some (JNull, drop 4 (c # r))
           else parse_number (c # r))"
          using Cons other by (subst parse_value.simps) simp
        then show ?thesis using a lr parse_number_length[of "c # r" v rest]
          by (auto split: if_splits)
      qed
    qed
  qed
next
  case (2 cs acc)
  show ?case
  proof (intro allI impI)
    fix vs rest assume a: "parse_elems cs acc = Some (vs, rest)"
    then obtain v r0 where pv: "parse_value cs = Some (v, r0)"
      by (subst (asm) parse_elems.simps) (auto split: option.splits)
    have l0: "length r0 < length cs" using "2.IH"(1) pv by blast
    show "length rest < length cs"
    proof (cases "skip_ws r0")
      case Nil
      then show ?thesis using a pv by (subst (asm) parse_elems.simps) simp
    next
      case (Cons d r)
      note lr = skip_ws_length[OF Cons]
      show ?thesis
      proof (cases "d = CHR '',''")
        case True
        have g: "length r < length cs" using lr l0 by simp
        from "2.IH"(2)[OF pv refl Cons True g]
        have "\<forall>vs rest. parse_elems r (acc @ [v]) = Some (vs, rest) \<longrightarrow> length rest < length r" .
        then show ?thesis using a pv Cons True g
          by (subst (asm) parse_elems.simps) auto
      next
        case False
        then show ?thesis using a pv Cons lr l0
          by (subst (asm) parse_elems.simps) (auto split: if_splits)
      qed
    qed
  qed
next
  case (3 cs acc)
  show ?case
  proof (intro allI impI)
    fix kvs rest assume a: "parse_members cs acc = Some (kvs, rest)"
    from a obtain q r where sk: "skip_ws cs = q # r" and q: "q = CHR 0x22"
      by (subst (asm) parse_members.simps) (auto split: list.splits if_splits)
    from a sk q obtain k r1 where ps: "parse_string r = Some (k, r1)"
      by (subst (asm) parse_members.simps) (auto split: option.splits)
    from a sk q ps obtain col r2 where sk1: "skip_ws r1 = col # r2"
      and col: "col = CHR '':'' \<and> length r2 < length cs"
      by (subst (asm) parse_members.simps) (auto split: list.splits if_splits)
    from a sk q ps sk1 col obtain v r0 where pv: "parse_value r2 = Some (v, r0)"
      by (subst (asm) parse_members.simps) (auto split: option.splits)
    have l0: "length r0 < length r2"
      using "3.IH"(1)[OF sk q ps refl sk1 col] pv by blast
    from a sk q ps sk1 col pv obtain d r3 where sk3: "skip_ws r0 = d # r3"
      by (subst (asm) parse_members.simps) (auto split: list.splits)
    note l3 = skip_ws_length[OF sk3]
    show "length rest < length cs"
    proof (cases "d = CHR '',''")
      case True
      have g: "length r3 < length cs" using l3 l0 col by simp
      from "3.IH"(2)[OF sk q ps refl sk1 col pv refl sk3 True g]
      have "\<forall>kvs rest. parse_members r3 (acc @ [(k, v)]) = Some (kvs, rest) \<longrightarrow>
              length rest < length r3" .
      then show ?thesis using a sk q ps sk1 col pv sk3 True g
        by (subst (asm) parse_members.simps) auto
    next
      case False
      then show ?thesis using a sk q ps sk1 col pv sk3 l3 l0
        by (subst (asm) parse_members.simps) (auto split: if_splits)
    qed
  qed
qed

lemma parse_elems_unguarded:
  "parse_elems cs acc =
     (case parse_value cs of
        None \<Rightarrow> None
      | Some (v, rest) \<Rightarrow>
          (case skip_ws rest of
             [] \<Rightarrow> None
           | d # r \<Rightarrow>
               if d = CHR '','' then parse_elems r (acc @ [v])
               else if d = CHR '']'' then Some (acc @ [v], r)
               else None))"
proof (cases "parse_value cs")
  case None
  then show ?thesis by (subst parse_elems.simps) simp
next
  case (Some p)
  obtain v rest where p: "p = (v, rest)" by (cases p)
  have l: "length rest < length cs" using parse_consumes(1) Some p by blast
  show ?thesis
  proof (cases "skip_ws rest")
    case Nil
    then show ?thesis using Some p by (subst parse_elems.simps) simp
  next
    case (Cons d r)
    have "length r < length cs" using skip_ws_length[OF Cons] l by simp
    then show ?thesis using Some p Cons by (subst parse_elems.simps) simp
  qed
qed

lemma parse_members_unguarded:
  "parse_members cs acc =
     (case skip_ws cs of
        [] \<Rightarrow> None
      | q # r \<Rightarrow>
          if q = CHR 0x22 then
            (case parse_string r of
               None \<Rightarrow> None
             | Some (k, r1) \<Rightarrow>
                 (case skip_ws r1 of
                    [] \<Rightarrow> None
                  | col # r2 \<Rightarrow>
                      if col = CHR '':'' then
                        (case parse_value r2 of
                           None \<Rightarrow> None
                         | Some (v, rest) \<Rightarrow>
                             (case skip_ws rest of
                                [] \<Rightarrow> None
                              | d # r3 \<Rightarrow>
                                  if d = CHR '','' then parse_members r3 (acc @ [(k, v)])
                                  else if d = CHR ''}'' then Some (acc @ [(k, v)], r3)
                                  else None))
                      else None))
          else None)"
proof -
  have g1: "length r2 < length cs"
    if "skip_ws cs = q # r" "parse_string r = Some (k, r1)" "skip_ws r1 = col # r2"
    for q r k r1 col r2
    using skip_ws_length[OF that(1)] parse_string_length[OF that(2)] skip_ws_length[OF that(3)]
    by simp
  have g2: "length r3 < length cs"
    if "skip_ws cs = q # r" "parse_string r = Some (k, r1)" "skip_ws r1 = col # r2"
      "parse_value r2 = Some (v, rest)" "skip_ws rest = d # r3"
    for q r k r1 col r2 v rest d r3
    using g1[OF that(1,2,3)] parse_consumes(1)[of r2] that(4) skip_ws_length[OF that(5)]
    by fastforce
  show ?thesis
    by (subst parse_members.simps)
       (auto split: list.splits option.splits simp: g1 g2)
qed

subsection \<open>Reading back the JSON text of a matrix of digits\<close>

lemma digit_cases:
  assumes "0 \<le> d" and "d \<le> (9::int)"
  obtains "d = 0" | "d = 1" | "d = 2" | "d = 3" | "d = 4" | "d = 5" | "d = 6" | "d = 7"
    | "d = 8" | "d = 9"
proof -
  have "d = 0 \<or> d = 1 \<or> d = 2 \<or> d = 3 \<or> d = 4 \<or> d = 5 \<or> d = 6 \<or> d = 7 \<or> d = 8 \<or> d = 9"
    using assms by arith
  then show thesis using that by blast
qed

lemma show_int_digit:
  assumes "0 \<le> d" and "d \<le> 9"
  shows "\<exists>ch. show_int d = [ch] \<and> is_digit ch \<and> int (digit_val ch) = d"
  using assms
  by (elim digit_cases)
     (simp_all add: show_int_def show_nat.simps digit_char_def is_digit_def digit_val_def)

lemma is_digit_chars:
  assumes "is_digit ch"
  shows "\<not> is_ws ch" and "ch \<noteq> CHR ''[''" and "ch \<noteq> CHR '']''" and "ch \<noteq> CHR ''{''"
    and "ch \<noteq> CHR 0x22" and "ch \<noteq> CHR ''-''" and "ch \<noteq> CHR ''t''" and "ch \<noteq> CHR ''f''"
    and "ch \<noteq> CHR ''n''"
  using assms by (auto simp: is_digit_def is_ws_def)

lemma parse_number_digit:
  assumes "is_digit ch" and "c = CHR '','' \<or> c = CHR '']''"
  shows "parse_number (ch # c # rest) = Some (JNum (int (digit_val ch)), c # rest)"
proof -
  have c: "\<not> is_digit c" "c \<noteq> CHR ''.''" "c \<noteq> CHR ''e''" "c \<noteq> CHR ''E''"
    using assms(2) by (auto simp: is_digit_def)
  show ?thesis
  proof (cases "ch = CHR ''0''")
    case True
    then show ?thesis using c
      by (simp add: parse_number_def nat_of_digits_def digit_val_def)
  next
    case False
    then show ?thesis using c assms(1) is_digit_chars(6)[OF assms(1)]
      by (simp add: parse_number_def nat_of_digits_def Let_def)
  qed
qed

lemma parse_value_digit:
  assumes "0 \<le> d" and "d \<le> 9" and "c = CHR '','' \<or> c = CHR '']''"
  shows "parse_value (show_int d @ c # rest) = Some (JNum d, c # rest)"
proof -
  from show_int_digit[OF assms(1,2)] obtain ch where
    ch: "show_int d = [ch]" "is_digit ch" "int (digit_val ch) = d" by blast
  note nc = is_digit_chars[OF ch(2)]
  have "parse_value (ch # c # rest) = parse_number (ch # c # rest)"
    using nc by (subst parse_value.simps) (simp add: skip_ws_def)
  then show ?thesis using parse_number_digit[OF ch(2) assms(3)] ch by simp
qed

lemma skip_ws_sep:
  "c = CHR '','' \<or> c = CHR '']'' \<Longrightarrow> skip_ws (c # rest) = c # rest"
  by (auto simp: skip_ws_def is_ws_def)

lemma parse_elems_join:
  assumes "xs \<noteq> []"
    and "\<And>x c rest. x \<in> set xs \<Longrightarrow> c = CHR '','' \<or> c = CHR '']'' \<Longrightarrow>
           parse_value (enc x @ c # rest) = Some (val x, c # rest)"
  shows "parse_elems (join_strs '','' (map enc xs) @ CHR '']'' # rest) acc =
           Some (acc @ map val xs, rest)"
  using assms
proof (induction xs arbitrary: acc rule: list_nonempty_induct)
  case (single x)
  have "parse_value (enc x @ CHR '']'' # rest) = Some (val x, CHR '']'' # rest)"
    by (rule single) simp_all
  then show ?case
    by (subst parse_elems.simps) (simp add: skip_ws_sep)
next
  case (cons x xs)
  obtain y ys where xs: "xs = y # ys" using cons.hyps(1) by (cases xs) auto
  let ?r = "join_strs '','' (map enc xs) @ CHR '']'' # rest"
  have pv: "parse_value (enc x @ CHR '','' # ?r) = Some (val x, CHR '','' # ?r)"
    by (rule cons.prems) simp_all
  have ih: "parse_elems ?r (acc @ [val x]) = Some ((acc @ [val x]) @ map val xs, rest)"
    by (rule cons.IH) (simp add: cons.prems)
  have tx: "join_strs '','' (map enc (x # xs)) @ CHR '']'' # rest = enc x @ CHR '','' # ?r"
    by (simp add: xs)
  show ?case
    unfolding tx
    by (subst parse_elems.simps) (simp add: pv skip_ws_sep ih)
qed

lemma parse_value_array:
  assumes "xs \<noteq> []"
    and "\<And>x c rest. x \<in> set xs \<Longrightarrow> c = CHR '','' \<or> c = CHR '']'' \<Longrightarrow>
           parse_value (enc x @ c # rest) = Some (val x, c # rest)"
    and "\<And>x. x \<in> set xs \<Longrightarrow> \<exists>ch cs. enc x = ch # cs \<and> \<not> is_ws ch \<and> ch \<noteq> CHR '']''"
  shows "parse_value (''['' @ join_strs '','' (map enc xs) @ '']'' @ rest) =
           Some (JArr (map val xs), rest)"
proof -
  let ?r = "join_strs '','' (map enc xs) @ CHR '']'' # rest"
  obtain y ys where xs: "xs = y # ys" using assms(1) by (cases xs) auto
  obtain ch cs where y: "enc y = ch # cs" "\<not> is_ws ch" "ch \<noteq> CHR '']''"
    using assms(3)[of y] xs by auto
  have "\<exists>tl. ?r = ch # tl"
    using y(1) xs by (cases ys) simp_all
  then obtain tl where r: "?r = ch # tl" by blast
  have sk: "skip_ws ?r = ch # tl" using y(2) by (simp add: r skip_ws_def)
  have pe: "parse_elems ?r [] = Some ([] @ map val xs, rest)"
    using assms(1,2) by (rule parse_elems_join)
  have "parse_value (CHR ''['' # ?r) = Some (JArr (map val xs), rest)"
    by (subst parse_value.simps) (simp add: skip_ws_def is_ws_def sk[unfolded skip_ws_def] y(3) pe)
  then show ?thesis by simp
qed

lemma json_row_first: "\<exists>ch cs. json_row r = ch # cs \<and> \<not> is_ws ch \<and> ch \<noteq> CHR '']''"
  by (simp add: json_row_def is_ws_def)

lemma parse_value_row:
  assumes "r \<noteq> []" and "list_all (\<lambda>d. 0 \<le> d \<and> d \<le> 9) r"
  shows "parse_value (json_row r @ rest) = Some (JArr (map JNum r), rest)"
proof -
  have el: "\<And>x c rest. x \<in> set r \<Longrightarrow> c = CHR '','' \<or> c = CHR '']'' \<Longrightarrow>
           parse_value (show_int x @ c # rest) = Some (JNum x, c # rest)"
    using assms(2) by (simp add: list_all_iff parse_value_digit)
  have st: "\<And>x. x \<in> set r \<Longrightarrow> \<exists>ch cs. show_int x = ch # cs \<and> \<not> is_ws ch \<and> ch \<noteq> CHR '']''"
  proof -
    fix x assume "x \<in> set r"
    then have "0 \<le> x" "x \<le> 9" using assms(2) by (simp_all add: list_all_iff)
    from show_int_digit[OF this] obtain ch where "show_int x = [ch]" "is_digit ch" by blast
    then show "\<exists>ch cs. show_int x = ch # cs \<and> \<not> is_ws ch \<and> ch \<noteq> CHR '']''"
      using is_digit_chars(1,3) by blast
  qed
  have "parse_value (''['' @ join_strs '','' (map show_int r) @ '']'' @ rest) =
          Some (JArr (map JNum r), rest)"
    using assms(1) el st by (rule parse_value_array)
  then show ?thesis by (simp add: json_row_def)
qed

lemma parse_value_matrix:
  assumes "a \<noteq> []" and "list_all (\<lambda>r. r \<noteq> [] \<and> list_all (\<lambda>d. 0 \<le> d \<and> d \<le> 9) r) a"
  shows "parse_value (json_matrix a @ rest) = Some (JArr (map (\<lambda>r. JArr (map JNum r)) a), rest)"
proof -
  have el: "\<And>x c rest. x \<in> set a \<Longrightarrow> c = CHR '','' \<or> c = CHR '']'' \<Longrightarrow>
           parse_value (json_row x @ c # rest) = Some (JArr (map JNum x), c # rest)"
    using assms(2) by (simp add: list_all_iff parse_value_row)
  have "parse_value (''['' @ join_strs '','' (map json_row a) @ '']'' @ rest) =
          Some (JArr (map (\<lambda>r. JArr (map JNum r)) a), rest)"
    using assms(1) el json_row_first by (rule parse_value_array)
  then show ?thesis by (simp add: json_matrix_def)
qed

lemma JSON_parse_matrix:
  assumes "a \<noteq> []" and "list_all (\<lambda>r. r \<noteq> [] \<and> list_all (\<lambda>d. 0 \<le> d \<and> d \<le> 9) r) a"
  shows "JSON_parse (json_matrix a) = Inr (JArr (map (\<lambda>r. JArr (map JNum r)) a))"
  using parse_value_matrix[OF assms, of "[]"]
  by (simp add: JSON_parse_def skip_ws_def)

lemma those_map_Some: "those (map (\<lambda>x. Some (f x)) xs) = Some (map f xs)"
  by (induction xs) simp_all

lemma json_text_row: "json_text (JArr (map JNum r)) = Some (json_row r)"
  by (simp add: comp_def those_map_Some json_row_def)

lemma json_text_matrix:
  "json_text (JArr (map (\<lambda>r. JArr (map JNum r)) a)) = Some (json_matrix a)"
proof -
  have "map json_text (map (\<lambda>r. JArr (map JNum r)) a) = map (\<lambda>r. Some (json_row r)) a"
    using json_text_row by simp
  then have "those (map json_text (map (\<lambda>r. JArr (map JNum r)) a)) = Some (map json_row a)"
    by (simp only: those_map_Some)
  then show ?thesis by (simp add: json_matrix_def)
qed

lemma JSON_stringify_matrix:
  "JSON_stringify (JArr (map (\<lambda>r. JArr (map JNum r)) a)) = Some (json_matrix a)"
  using json_text_matrix[of a] by (simp add: JSON_stringify_def)

text \<open>
  C4.  For every 9 by 9 array of digits, whether or not it is a valid
  solution, \<open>fromString\<close> of its JSON text returns, without an error, the
  solution whose grid holds the cells of the array at all 81 positions;
  \<open>fromString\<close> calls no validation.  \<open>toJSON\<close> of that solution returns the
  array, \<open>JSON.stringify\<close> of the array is that JSON text, and \<open>fromString\<close> of
  the JSON text of \<open>toJSON\<close> of the solution returns the solution again.
\<close>

theorem fromString_roundtrip:
  assumes "length a = 9"
    and "list_all (\<lambda>r. length r = 9 \<and> list_all (\<lambda>d. 0 \<le> d \<and> d \<le> 9) r) a"
  shows "fromString (json_matrix a) = Inr \<lparr> grid = grid_of a \<rparr> \<and>
         get_grid \<lparr> grid = grid_of a \<rparr> = Inr (grid_of a) \<and>
         toJSON \<lparr> grid = grid_of a \<rparr> = Inr (JArr (map (\<lambda>r. JArr (map JNum r)) a)) \<and>
         JSON_stringify (JArr (map (\<lambda>r. JArr (map JNum r)) a)) = Some (json_matrix a) \<and>
         (case toJSON \<lparr> grid = grid_of a \<rparr> of
            Inl e \<Rightarrow> None
          | Inr v \<Rightarrow> map_option fromString (JSON_stringify v)) =
           Some (Inr \<lparr> grid = grid_of a \<rparr>) \<and>
         (\<forall>r<9. \<forall>c<9. getCell (grid_of a) (r, c) = Inr (JNum (a ! r ! c)))"
proof -
  have ne: "a \<noteq> []" using assms(1) by auto
  have rows: "list_all (\<lambda>r. r \<noteq> [] \<and> list_all (\<lambda>d. 0 \<le> d \<and> d \<le> 9) r) a"
    using assms(2) by (auto simp: list_all_iff)
  have wf: "wf9 a" using assms by (simp add: wf9_def list_all_iff)
  have fs: "fromString (json_matrix a) = Inr \<lparr> grid = grid_of a \<rparr>"
    by (simp add: fromString_def JSON_parse_matrix[OF ne rows] GridSvc_new_def grid_of_def
          matrix_grid_def comp_def)
  have cells: "\<forall>r<9. \<forall>c<9. getCell (grid_of a) (r, c) = Inr (JNum (a ! r ! c))"
    using getCell_grid_of[OF wf] by (simp add: inrange_def cellv_def)
  have reread: "(case toJSON \<lparr> grid = grid_of a \<rparr> of
            Inl e \<Rightarrow> None
          | Inr v \<Rightarrow> map_option fromString (JSON_stringify v)) =
           Some (Inr \<lparr> grid = grid_of a \<rparr>)"
    by (simp add: toJSON_grid_of JSON_stringify_matrix fs)
  show ?thesis
    using fs cells reread get_grid_grid_of[of a] toJSON_grid_of[of a] JSON_stringify_matrix[of a]
    by blast
qed

theorem fromString_roundtrip_witness:
  "length row_duplicate = 9 \<and>
   list_all (\<lambda>r. length r = 9 \<and> list_all (\<lambda>d. 0 \<le> d \<and> d \<le> 9) r) row_duplicate \<and>
   fromString (json_matrix row_duplicate) = Inr \<lparr> grid = grid_of row_duplicate \<rparr> \<and>
   toJSON \<lparr> grid = grid_of row_duplicate \<rparr> =
     Inr (JArr (map (\<lambda>r. JArr (map JNum r)) row_duplicate)) \<and>
   (case toJSON \<lparr> grid = grid_of row_duplicate \<rparr> of
            Inl e \<Rightarrow> None
          | Inr v \<Rightarrow> map_option fromString (JSON_stringify v)) =
           Some (Inr \<lparr> grid = grid_of row_duplicate \<rparr>) \<and>
   getCell (grid_of row_duplicate) (0, 1) = Inr (JNum (row_duplicate ! 0 ! 1))"
proof -
  have h1: "length row_duplicate = 9" by code_simp
  have h2: "list_all (\<lambda>r. length r = 9 \<and> list_all (\<lambda>d. 0 \<le> d \<and> d \<le> 9) r) row_duplicate"
    by code_simp
  have z: "(0::nat) < 9" "(1::nat) < 9" by simp_all
  show ?thesis using fromString_roundtrip[OF h1 h2] h1 h2 z by blast
qed

text \<open>
  C5.  \<open>fromString\<close> of the text \<open>not json\<close> raises the \<open>InvalidSolutionError\<close>
  that carries the text and the parse error, as the claim says.  The text
  \<open>{}\<close> is to raise the same error; it parses to the empty object, the
  constructor accepts the object, and \<open>fromString\<close> returns a solution over it.
\<close>

theorem fromString_parse_failures:
  "fromString ''not json'' = Inl (InvalidSolutionError ''not json'' SyntaxError) \<and>
   fromString ''{}'' = Inr \<lparr> grid = \<lparr> data = JObj [] \<rparr> \<rparr>"
  by code_simp

end
